theory Spec2Isabelle
  imports Complex_Main
begin

section \<open>Data model\<close>

text \<open>
  The relational store as the services see it. Only the columns the modelled handlers read
  or write are kept: \<open>products(name, price, stock)\<close>, \<open>orders(user_id, status,
  total_amount)\<close>, \<open>order_items(order_id, product_id, quantity, price)\<close> and
  \<open>users(email)\<close>. Tables with a primary key are maps from the id to the row. Go's
  \<open>int\<close> and the \<open>INTEGER\<close> columns are mathematical integers: the handlers only
  compare them, and the one subtraction that is stored (\<open>stock - $1\<close>) is evaluated by the
  database, which reports an out-of-range result as a failed statement.

  A finite \<open>float64\<close> is a real number, but its arithmetic is not the arithmetic of the
  reals: every operation rounds. The three operations the code uses on amounts are
  therefore parameters, and nothing is assumed about them. The price and amount columns
  hold the values as they pass between the database and the Go variables.
\<close>

type_synonym float64 = real

record float64_ops =
  fadd :: "float64 \<Rightarrow> float64 \<Rightarrow> float64"
  fmul :: "float64 \<Rightarrow> float64 \<Rightarrow> float64"
  fint :: "int \<Rightarrow> float64"

datatype order_status = PENDING | CONFIRMED | CANCELLED | FAILED

record product_row =
  name :: string
  price :: float64
  stock :: int

record order_row =
  user_id :: int
  status :: order_status
  total_amount :: float64

record order_item_row =
  order_id :: int
  product_id :: int
  quantity :: int
  item_price :: float64

record database =
  products :: "int \<rightharpoonup> product_row"
  orders :: "int \<rightharpoonup> order_row"
  order_items :: "order_item_row list"
  users :: "int \<rightharpoonup> string"

subsection \<open>Messages\<close>

record OrderItemRequest =
  ProductID :: int
  Quantity :: int

record OrderPlacedMessage =
  OrderID :: int
  UserID :: int
  Items :: "OrderItemRequest list"
  TotalAmount :: float64
  Timestamp :: nat

record OrderConfirmedMessage =
  cOrderID :: int
  cUserID :: int
  cUserEmail :: string
  cTimestamp :: nat

record OrderFailedMessage =
  fOrderID :: int
  fUserID :: int
  fUserEmail :: string
  fReason :: string
  fTimestamp :: nat

datatype message =
    MsgPlaced OrderPlacedMessage
  | MsgConfirmed OrderConfirmedMessage
  | MsgFailed OrderFailedMessage

definition QueueOrderPlaced :: string where "QueueOrderPlaced = ''order_placed''"
definition QueueOrderConfirmed :: string where "QueueOrderConfirmed = ''order_confirmed''"
definition QueueOrderFailed :: string where "QueueOrderFailed = ''order_failed''"

subsection \<open>Errors, the environment and the observable world\<close>

text \<open>
  Go errors are values: the two sentinels of \<open>database/sql\<close> the code compares with, any
  other driver or broker failure (\<open>ErrIO\<close>), a payload that does not decode
  (\<open>ErrSyntax\<close>), and the errors \<open>fmt.Errorf\<close> builds, with (\<open>Wrap\<close>, for \<open>%w\<close>) or
  without (\<open>Msg\<close>) a cause.
\<close>

datatype error = ErrNoRows | ErrTxDone | ErrIO | ErrSyntax | Msg string | Wrap string error

text \<open>
  Every call that leaves the process can fail for reasons the code does not control
  (connection loss, constraint violation, lock timeout, broker down). The environment says
  which calls of one handler execution fail; loops number their calls by the position of
  the item. It also supplies the clock read by \<open>time.Now()\<close>. A violated constraint of
  the schema is one of these failures: the database is not assumed to enforce any, so
  nothing proved below relies on one.
\<close>

datatype io_call =
    OpBegin
  | OpSelectProduct nat
  | OpUpdateStock nat
  | OpUpdateStatus
  | OpCommit
  | OpSelectEmail
  | OpPublish
  | OpInsertOrder
  | OpSelectPrice nat
  | OpInsertItem nat
  | OpQos
  | OpConsume

record env =
  fails :: "io_call \<Rightarrow> bool"
  now :: nat

text \<open>
  What an execution leaves behind: the committed database, the order-id sequence, and the
  chronological list of effects that became visible outside the process.
\<close>

datatype effect =
    TxCommit
  | TxRollback
  | EmailResolved int
  | Published string message

record world =
  db :: database
  order_seq :: int
  events :: "effect list"

text \<open>
  A transaction of \<open>database/sql\<close>: statements run against its own view of the database,
  \<open>Commit\<close> installs the view, \<open>Rollback\<close> drops it. A commit, failed or not, marks
  the transaction done, and \<open>Rollback\<close> on a done transaction returns \<open>ErrTxDone\<close>
  without touching anything.
\<close>

record tx =
  view :: database
  closed :: bool

section \<open>Formatting\<close>

text \<open>\<open>%d\<close> of \<open>fmt.Sprintf\<close> and \<open>strconv.Itoa\<close>: decimal, with a minus sign.\<close>

fun digits :: "nat \<Rightarrow> string" where
  "digits n =
     (if n < 10 then [''0123456789'' ! n]
      else digits (n div 10) @ [''0123456789'' ! (n mod 10)])"

declare digits.simps [simp del]

definition fmt_d :: "int \<Rightarrow> string" where
  "fmt_d i = (if i < 0 then CHR ''-'' # digits (nat (- i)) else digits (nat i))"

section \<open>Database and broker calls\<close>

definition Begin :: "env \<Rightarrow> world \<Rightarrow> error + tx" where
  "Begin e w = (if fails e OpBegin then Inl ErrIO else Inr \<lparr>view = db w, closed = False\<rparr>)"

definition Commit :: "env \<Rightarrow> tx \<Rightarrow> world \<Rightarrow> error option \<times> tx \<times> world" where
  "Commit e t w =
     (if closed t then (Some ErrTxDone, t, w)
      else if fails e OpCommit then (Some ErrIO, t\<lparr>closed := True\<rparr>, w)
      else (None, t\<lparr>closed := True\<rparr>, w\<lparr>db := view t, events := events w @ [TxCommit]\<rparr>))"

definition Rollback :: "tx \<Rightarrow> world \<Rightarrow> error option \<times> world" where
  "Rollback t w =
     (if closed t then (Some ErrTxDone, w)
      else (None, w\<lparr>events := events w @ [TxRollback]\<rparr>))"

text \<open>\<open>SELECT name, stock FROM products WHERE id = $1 FOR UPDATE\<close>\<close>

definition select_product_for_update :: "env \<Rightarrow> nat \<Rightarrow> tx \<Rightarrow> int \<Rightarrow> error + (string \<times> int)" where
  "select_product_for_update e i t pid =
     (if fails e (OpSelectProduct i) then Inl ErrIO
      else case products (view t) pid of
             None \<Rightarrow> Inl ErrNoRows
           | Some p \<Rightarrow> Inr (name p, stock p))"

text \<open>\<open>UPDATE products SET stock = stock - $1 WHERE id = $2\<close>, with the rows affected.\<close>

definition update_stock :: "env \<Rightarrow> nat \<Rightarrow> tx \<Rightarrow> int \<Rightarrow> int \<Rightarrow> error + (nat \<times> tx)" where
  "update_stock e i t q pid =
     (if fails e (OpUpdateStock i) then Inl ErrIO
      else case products (view t) pid of
             None \<Rightarrow> Inr (0, t)
           | Some p \<Rightarrow>
               Inr (1, t\<lparr>view := (view t)\<lparr>products :=
                            (products (view t))(pid \<mapsto> p\<lparr>stock := stock p - q\<rparr>)\<rparr>\<rparr>))"

text \<open>\<open>UPDATE orders SET status = $1, updated_at = CURRENT_TIMESTAMP WHERE id = $2\<close>\<close>

definition update_status :: "env \<Rightarrow> tx \<Rightarrow> order_status \<Rightarrow> int \<Rightarrow> error + tx" where
  "update_status e t s oid =
     (if fails e OpUpdateStatus then Inl ErrIO
      else case orders (view t) oid of
             None \<Rightarrow> Inr t
           | Some r \<Rightarrow>
               Inr (t\<lparr>view := (view t)\<lparr>orders := (orders (view t))(oid \<mapsto> r\<lparr>status := s\<rparr>)\<rparr>\<rparr>))"

text \<open>\<open>SELECT email FROM users WHERE id = $1\<close>, on the connection pool (committed data).\<close>

definition select_email :: "env \<Rightarrow> world \<Rightarrow> int \<Rightarrow> (error + string) \<times> world" where
  "select_email e w uid =
     (if fails e OpSelectEmail then (Inl ErrIO, w)
      else case users (db w) uid of
             None \<Rightarrow> (Inl ErrNoRows, w)
           | Some m \<Rightarrow> (Inr m, w\<lparr>events := events w @ [EmailResolved uid]\<rparr>))"

text \<open>\<open>RabbitMQ.Publish\<close>: marshal and publish persistently to the named queue.\<close>

definition Publish :: "env \<Rightarrow> string \<Rightarrow> message \<Rightarrow> world \<Rightarrow> error option \<times> world" where
  "Publish e queueName m w =
     (if fails e OpPublish then (Some (Wrap ''failed to publish message'' ErrIO), w)
      else (None, w\<lparr>events := events w @ [Published queueName m]\<rparr>))"

section \<open>The settlement consumer\<close>

text \<open>\<open>failOrder\<close> marks the order CANCELLED and publishes the failure message. It returns
  nothing: every failure inside it is logged and ends the function.\<close>

definition failOrder :: "env \<Rightarrow> tx \<Rightarrow> int \<Rightarrow> int \<Rightarrow> string \<Rightarrow> world \<Rightarrow> tx \<times> world" where
  "failOrder e t orderID userID reason w =
     (case update_status e t CANCELLED orderID of
        Inl err \<Rightarrow> (t, w)
      | Inr t1 \<Rightarrow>
          (case Commit e t1 w of
             (Some err, t2, w2) \<Rightarrow> (t2, w2)
           | (None, t2, w2) \<Rightarrow>
               (case select_email e w2 userID of
                  (Inl err, w3) \<Rightarrow> (t2, w3)
                | (Inr userEmail, w3) \<Rightarrow>
                    (t2, snd (Publish e QueueOrderFailed
                                (MsgFailed \<lparr>fOrderID = orderID, fUserID = userID,
                                            fUserEmail = userEmail, fReason = reason,
                                            fTimestamp = now e\<rparr>) w3)))))"

text \<open>The deferred function of \<open>ProcessOrder\<close>: roll back, ignoring \<open>ErrTxDone\<close>.\<close>

definition deferred :: "tx \<Rightarrow> world \<Rightarrow> world" where
  "deferred t w = snd (Rollback t w)"

text \<open>
  The loop over \<open>msg.Items\<close>. \<open>Inl\<close> is the transaction after the last item, when the loop
  ran to its end; \<open>Inr\<close> is an early \<open>return\<close> from \<open>ProcessOrder\<close>: the returned error and
  the world after the deferred rollback.
\<close>

fun items_loop ::
  "env \<Rightarrow> OrderPlacedMessage \<Rightarrow> nat \<Rightarrow> OrderItemRequest list \<Rightarrow> tx \<Rightarrow> world
   \<Rightarrow> tx + (error option \<times> world)" where
  "items_loop e msg i [] t w = Inl t"
| "items_loop e msg i (item # rest) t w =
     (case select_product_for_update e i t (ProductID item) of
        Inl err \<Rightarrow>
          (if err = ErrNoRows then
             (case failOrder e t (OrderID msg) (UserID msg)
                     (''Product #'' @ fmt_d (ProductID item) @ '' not found'') w of
                (t', w') \<Rightarrow> Inr (None, deferred t' w'))
           else Inr (Some (Wrap ''failed to check stock'' err), deferred t w))
      | Inr (productName, currentStock) \<Rightarrow>
          (if currentStock < Quantity item then
             (case failOrder e t (OrderID msg) (UserID msg)
                     (''Insufficient stock for '' @ productName @ ''. Available: ''
                        @ fmt_d currentStock @ '', Requested: '' @ fmt_d (Quantity item)) w of
                (t', w') \<Rightarrow> Inr (None, deferred t' w'))
           else
             (case update_stock e i t (Quantity item) (ProductID item) of
                Inl err \<Rightarrow> Inr (Some (Wrap ''failed to update stock'' err), deferred t w)
              | Inr (rowsAffected, t') \<Rightarrow>
                  (if rowsAffected = 0 then
                     Inr (Some (Msg (''failed to update stock for product #''
                                       @ fmt_d (ProductID item))), deferred t' w)
                   else items_loop e msg (Suc i) rest t' w))))"

text \<open>
  \<open>ProcessOrder\<close>. The body is the result of \<open>json.Unmarshal\<close>: \<open>None\<close> when the bytes
  do not decode.
\<close>

definition ProcessOrder :: "env \<Rightarrow> OrderPlacedMessage option \<Rightarrow> world \<Rightarrow> error option \<times> world" where
  "ProcessOrder e body w =
     (case body of
        None \<Rightarrow> (Some (Wrap ''failed to unmarshal message'' ErrSyntax), w)
      | Some msg \<Rightarrow>
          (case Begin e w of
             Inl err \<Rightarrow> (Some (Wrap ''failed to start transaction'' err), w)
           | Inr t \<Rightarrow>
               (case items_loop e msg 0 (Items msg) t w of
                  Inr r \<Rightarrow> r
                | Inl t1 \<Rightarrow>
                    (case update_status e t1 CONFIRMED (OrderID msg) of
                       Inl err \<Rightarrow> (Some (Wrap ''failed to update order status'' err), deferred t1 w)
                     | Inr t2 \<Rightarrow>
                         (case Commit e t2 w of
                            (Some err, t3, w3) \<Rightarrow>
                              (Some (Wrap ''failed to commit transaction'' err), deferred t3 w3)
                          | (None, t3, w3) \<Rightarrow>
                              (case select_email e w3 (UserID msg) of
                                 (Inl email_err, w4) \<Rightarrow>
                                   (Some (Wrap ''failed to send email'' email_err), deferred t3 w4)
                               | (Inr userEmail, w4) \<Rightarrow>
                                   (case Publish e QueueOrderConfirmed
                                           (MsgConfirmed \<lparr>cOrderID = OrderID msg,
                                              cUserID = UserID msg, cUserEmail = userEmail,
                                              cTimestamp = now e\<rparr>) w4 of
                                      (err, w5) \<Rightarrow> (None, deferred t3 w5))))))))"


text \<open>
  One consumer instance handles its deliveries one after the other (prefetch 1), each
  execution in its own environment. \<open>handle_all\<close> lists the world after each execution.
\<close>

fun handle_all :: "(env \<times> OrderPlacedMessage option) list \<Rightarrow> world \<Rightarrow> world list" where
  "handle_all [] w = []"
| "handle_all ((e, body) # rest) w =
     (case ProcessOrder e body w of (r, w') \<Rightarrow> w' # handle_all rest w')"

section \<open>The broker client's subscription\<close>

text \<open>
  What the consumer tells the broker about a delivery: \<open>msg.Ack(multiple)\<close> or
  \<open>msg.Nack(multiple, requeue)\<close>.
\<close>

datatype delivery_reply = Ack bool | Nack bool bool

text \<open>The body of the \<open>for msg := range msgs\<close> loop: run the handler, then reply.\<close>

definition dispatch ::
  "('b \<Rightarrow> 'w \<Rightarrow> error option \<times> 'w) \<Rightarrow> 'b \<Rightarrow> 'w \<Rightarrow> error option \<times> delivery_reply \<times> 'w" where
  "dispatch handler body w =
     (case handler body w of
        (Some err, w') \<Rightarrow> (Some err, Nack False True, w')
      | (None, w') \<Rightarrow> (None, Ack False, w'))"

text \<open>
  The broker's side of a reply, as AMQP defines it, for a queue whose head is the one
  unacknowledged delivery: an acknowledged message is removed, a rejected one is removed
  unless \<open>requeue\<close> is set, in which case it goes back to where it was and is delivered
  again.
\<close>

fun broker_settle :: "'b list \<Rightarrow> delivery_reply \<Rightarrow> 'b list" where
  "broker_settle [] r = []"
| "broker_settle (m # q) (Ack multiple) = q"
| "broker_settle (m # q) (Nack multiple requeue) = (if requeue then m # q else q)"

text \<open>
  The loop of the goroutine started by \<open>Consume\<close>. It runs for as long as the delivery
  channel is open; \<open>n\<close> bounds the deliveries made before the channel closes. The result
  lists every delivery with what the handler returned and the reply sent, then the queue
  and the world that are left.
\<close>

fun consume_loop ::
  "nat \<Rightarrow> ('b \<Rightarrow> 'w \<Rightarrow> error option \<times> 'w) \<Rightarrow> 'b list \<Rightarrow> 'w
   \<Rightarrow> ('b \<times> error option \<times> delivery_reply) list \<times> 'b list \<times> 'w" where
  "consume_loop 0 handler q w = ([], q, w)"
| "consume_loop (Suc n) handler [] w = ([], [], w)"
| "consume_loop (Suc n) handler (m # q) w =
     (case dispatch handler m w of
        (res, reply, w') \<Rightarrow>
          (case consume_loop n handler (broker_settle (m # q) reply) w' of
             (served, q', w'') \<Rightarrow> ((m, res, reply) # served, q', w'')))"

text \<open>\<open>RabbitMQ.Consume\<close>: set the prefetch, register the consumer, start the loop.\<close>

definition Consume ::
  "env \<Rightarrow> nat \<Rightarrow> ('b \<Rightarrow> 'w \<Rightarrow> error option \<times> 'w) \<Rightarrow> 'b list \<Rightarrow> 'w
   \<Rightarrow> error option \<times> ('b \<times> error option \<times> delivery_reply) list \<times> 'b list \<times> 'w" where
  "Consume e n handler q w =
     (if fails e OpQos then (Some (Wrap ''failed to set QoS'' ErrIO), [], q, w)
      else if fails e OpConsume then (Some (Wrap ''failed to register consumer'' ErrIO), [], q, w)
      else (None, consume_loop n handler q w))"

section \<open>The order placement producer\<close>

record response =
  code :: nat
  success :: bool
  text_of :: string
  data :: "(int \<times> string) option"

definition failure :: "nat \<Rightarrow> string \<Rightarrow> response" where
  "failure c txt = \<lparr>code = c, success = False, text_of = txt, data = None\<rparr>"

text \<open>\<open>SELECT price, stock FROM products WHERE id = $1\<close>\<close>

definition select_price_stock :: "env \<Rightarrow> nat \<Rightarrow> tx \<Rightarrow> int \<Rightarrow> error + (float64 \<times> int)" where
  "select_price_stock e i t pid =
     (if fails e (OpSelectProduct i) then Inl ErrIO
      else case products (view t) pid of
             None \<Rightarrow> Inl ErrNoRows
           | Some p \<Rightarrow> Inr (price p, stock p))"

text \<open>The first loop of \<open>CreateOrder\<close>: every product exists; the total is summed up
  as \<open>totalAmount += price * float64(item.Quantity)\<close>, in \<open>float64\<close> arithmetic.
  \<open>Inl\<close> is the response of an early \<open>return\<close>.\<close>

fun validate_items ::
  "float64_ops \<Rightarrow> env \<Rightarrow> nat \<Rightarrow> tx \<Rightarrow> OrderItemRequest list \<Rightarrow> float64
   \<Rightarrow> response + float64" where
  "validate_items F e i t [] totalAmount = Inr totalAmount"
| "validate_items F e i t (item # rest) totalAmount =
     (case select_price_stock e i t (ProductID item) of
        Inl err \<Rightarrow>
          (if err = ErrNoRows then
             Inl (failure 400 (''Product ID '' @ fmt_d (ProductID item) @ '' not found''))
           else Inl (failure 500 ''Database error''))
      | Inr (unitPrice, unitStock) \<Rightarrow>
          validate_items F e (Suc i) t rest
            (fadd F totalAmount (fmul F unitPrice (fint F (Quantity item)))))"

text \<open>\<open>INSERT INTO orders (user_id, status, total_amount) VALUES ($1, $2, $3) RETURNING id\<close>.
  The id comes from the table's sequence, which no rollback resets.\<close>

definition insert_order ::
  "env \<Rightarrow> tx \<Rightarrow> world \<Rightarrow> int \<Rightarrow> order_status \<Rightarrow> float64
   \<Rightarrow> (error + (int \<times> tx)) \<times> world" where
  "insert_order e t w userID s totalAmount =
     (if fails e OpInsertOrder then (Inl ErrIO, w)
      else (Inr (order_seq w,
                 t\<lparr>view := (view t)\<lparr>orders := (orders (view t))(order_seq w \<mapsto>
                      \<lparr>user_id = userID, status = s, total_amount = totalAmount\<rparr>)\<rparr>\<rparr>),
            w\<lparr>order_seq := order_seq w + 1\<rparr>))"

text \<open>\<open>SELECT price FROM products WHERE id = $1\<close>, scanned into a zero-initialised
  variable, the error dropped.\<close>

definition select_price :: "env \<Rightarrow> nat \<Rightarrow> tx \<Rightarrow> int \<Rightarrow> float64" where
  "select_price e i t pid =
     (if fails e (OpSelectPrice i) then 0
      else case products (view t) pid of None \<Rightarrow> 0 | Some p \<Rightarrow> price p)"

text \<open>\<open>INSERT INTO order_items (order_id, product_id, quantity, price) VALUES (...)\<close>\<close>

definition insert_item :: "env \<Rightarrow> nat \<Rightarrow> tx \<Rightarrow> order_item_row \<Rightarrow> error + tx" where
  "insert_item e i t row =
     (if fails e (OpInsertItem i) then Inl ErrIO
      else Inr (t\<lparr>view := (view t)\<lparr>order_items := order_items (view t) @ [row]\<rparr>\<rparr>))"

text \<open>The second loop of \<open>CreateOrder\<close>: one order line per requested item.\<close>

fun insert_items :: "env \<Rightarrow> nat \<Rightarrow> int \<Rightarrow> OrderItemRequest list \<Rightarrow> tx \<Rightarrow> response + tx" where
  "insert_items e i orderID [] t = Inr t"
| "insert_items e i orderID (item # rest) t =
     (case insert_item e i t
             \<lparr>order_id = orderID, product_id = ProductID item, quantity = Quantity item,
              item_price = select_price e i t (ProductID item)\<rparr> of
        Inl err \<Rightarrow> Inl (failure 500 ''Failed to create order items'')
      | Inr t' \<Rightarrow> insert_items e (Suc i) orderID rest t')"

text \<open>
  \<open>CreateOrder\<close>. The request is the result of \<open>ShouldBindJSON\<close>: the text of the binding
  error, or the items of the bound request.
\<close>

definition CreateOrder ::
  "float64_ops \<Rightarrow> env \<Rightarrow> int \<Rightarrow> string + OrderItemRequest list \<Rightarrow> world
   \<Rightarrow> response \<times> world" where
  "CreateOrder F e userID bound w =
     (case bound of
        Inl txt \<Rightarrow> (failure 400 txt, w)
      | Inr req \<Rightarrow>
          (case Begin e w of
             Inl err \<Rightarrow> (failure 500 ''Failed to start transaction'', w)
           | Inr t \<Rightarrow>
               (case validate_items F e 0 t req 0 of
                  Inl r \<Rightarrow> (r, deferred t w)
                | Inr totalAmount \<Rightarrow>
                    (case insert_order e t w userID PENDING totalAmount of
                       (Inl err, w1) \<Rightarrow> (failure 500 ''Failed to create order'', deferred t w1)
                     | (Inr (orderID, t1), w1) \<Rightarrow>
                         (case insert_items e 0 orderID req t1 of
                            Inl r \<Rightarrow> (r, deferred t1 w1)
                          | Inr t2 \<Rightarrow>
                              (case Commit e t2 w1 of
                                 (Some err, t3, w3) \<Rightarrow>
                                   (failure 500 ''Failed to commit transaction'', deferred t3 w3)
                               | (None, t3, w3) \<Rightarrow>
                                   (case Publish e QueueOrderPlaced
                                           (MsgPlaced \<lparr>OrderID = orderID, UserID = userID,
                                              Items = req, TotalAmount = totalAmount,
                                              Timestamp = now e\<rparr>) w3 of
                                      (Some err, w4) \<Rightarrow>
                                        (failure 500
                                           ''Order created but failed to queue for processing'',
                                         deferred t3 w4)
                                    | (None, w4) \<Rightarrow>
                                        (\<lparr>code = 202, success = True,
                                          text_of = ''Order received and is being processed'',
                                          data = Some (orderID, ''PENDING'')\<rparr>,
                                         deferred t3 w4))))))))"

section \<open>Vocabulary of the properties\<close>

text \<open>The stock check of one item against a products table, and the effect of its
  decrement on the table.\<close>

definition in_stock :: "(int \<rightharpoonup> product_row) \<Rightarrow> OrderItemRequest \<Rightarrow> bool" where
  "in_stock ps item =
     (case ps (ProductID item) of None \<Rightarrow> False | Some p \<Rightarrow> Quantity item \<le> stock p)"

definition decrement :: "(int \<rightharpoonup> product_row) \<Rightarrow> OrderItemRequest \<Rightarrow> (int \<rightharpoonup> product_row)" where
  "decrement ps item =
     (case ps (ProductID item) of
        None \<Rightarrow> ps
      | Some p \<Rightarrow> ps(ProductID item \<mapsto> p\<lparr>stock := stock p - Quantity item\<rparr>))"

text \<open>Every item passes its stock check when its turn comes, that is, against the table
  as the earlier items of the same message have left it.\<close>

fun all_in_stock :: "(int \<rightharpoonup> product_row) \<Rightarrow> OrderItemRequest list \<Rightarrow> bool" where
  "all_in_stock ps [] = True"
| "all_in_stock ps (item # rest) = (in_stock ps item \<and> all_in_stock (decrement ps item) rest)"

text \<open>The units of product \<open>pid\<close> that a list of items asks for.\<close>

definition requested :: "int \<Rightarrow> OrderItemRequest list \<Rightarrow> int" where
  "requested pid items = sum_list (map Quantity (filter (\<lambda>item. ProductID item = pid) items))"

definition loop_calls_succeed :: "env \<Rightarrow> bool" where
  "loop_calls_succeed e = (\<forall>i. \<not> fails e (OpSelectProduct i) \<and> \<not> fails e (OpUpdateStock i))"

definition with_products :: "tx \<Rightarrow> (int \<rightharpoonup> product_row) \<Rightarrow> tx" where
  "with_products t ps = t\<lparr>view := (view t)\<lparr>products := ps\<rparr>\<rparr>"

definition set_status :: "(int \<rightharpoonup> order_row) \<Rightarrow> int \<Rightarrow> order_status \<Rightarrow> (int \<rightharpoonup> order_row)" where
  "set_status os oid s = (case os oid of None \<Rightarrow> os | Some r \<Rightarrow> os(oid \<mapsto> r\<lparr>status := s\<rparr>))"

definition terminal :: "order_status \<Rightarrow> bool" where
  "terminal s = (s = CONFIRMED \<or> s = CANCELLED)"

text \<open>The database a settlement commits: the stock of the items it went through taken
  off, the order's status set.\<close>

definition settled :: "database \<Rightarrow> OrderItemRequest list \<Rightarrow> int \<Rightarrow> order_status \<Rightarrow> database" where
  "settled d items oid s =
     d\<lparr>products := foldl decrement (products d) items, orders := set_status (orders d) oid s\<rparr>"

text \<open>The reason \<open>ProcessOrder\<close> hands to \<open>failOrder\<close> for an item that fails its check.\<close>

definition failure_reason :: "(int \<rightharpoonup> product_row) \<Rightarrow> OrderItemRequest \<Rightarrow> string" where
  "failure_reason ps item =
     (case ps (ProductID item) of
        None \<Rightarrow> ''Product #'' @ fmt_d (ProductID item) @ '' not found''
      | Some p \<Rightarrow> ''Insufficient stock for '' @ name p @ ''. Available: ''
                   @ fmt_d (stock p) @ '', Requested: '' @ fmt_d (Quantity item))"

text \<open>The total the first loop of \<open>CreateOrder\<close> arrives at, and the rows its second loop
  writes, for a request against a products table.\<close>

fun order_total ::
  "float64_ops \<Rightarrow> (int \<rightharpoonup> product_row) \<Rightarrow> OrderItemRequest list \<Rightarrow> float64 \<Rightarrow> float64" where
  "order_total F ps [] acc = acc"
| "order_total F ps (item # rest) acc =
     order_total F ps rest
       (fadd F acc
          (fmul F (case ps (ProductID item) of None \<Rightarrow> 0 | Some p \<Rightarrow> price p)
             (fint F (Quantity item))))"

fun order_lines ::
  "env \<Rightarrow> (int \<rightharpoonup> product_row) \<Rightarrow> nat \<Rightarrow> int \<Rightarrow> OrderItemRequest list \<Rightarrow> order_item_row list" where
  "order_lines e ps i oid [] = []"
| "order_lines e ps i oid (item # rest) =
     \<lparr>order_id = oid, product_id = ProductID item, quantity = Quantity item,
      item_price = (if fails e (OpSelectPrice i) then 0
                    else case ps (ProductID item) of None \<Rightarrow> 0 | Some p \<Rightarrow> price p)\<rparr>
     # order_lines e ps (Suc i) oid rest"

text \<open>One products table holds no more stock than another, product by product.\<close>

definition stock_le :: "(int \<rightharpoonup> product_row) \<Rightarrow> (int \<rightharpoonup> product_row) \<Rightarrow> bool" where
  "stock_le ps' ps = (\<forall>pid. rel_option (\<lambda>p' p. stock p' \<le> stock p) (ps' pid) (ps pid))"

text \<open>
  A delivery as \<open>CreateOrder\<close> gives rise to them, seen from order \<open>oid\<close> whose request
  had the items \<open>items\<close>: the quantities are not negative (the request binding asks for at
  least 1), and a message of order \<open>oid\<close> carries exactly \<open>items\<close> (one message is
  published per order, and a redelivery repeats it). Bytes that do not decode are allowed.
\<close>

definition delivery_ok ::
  "int \<Rightarrow> OrderItemRequest list \<Rightarrow> env \<times> OrderPlacedMessage option \<Rightarrow> bool" where
  "delivery_ok oid items d =
     (case snd d of
        None \<Rightarrow> True
      | Some m \<Rightarrow> list_all (\<lambda>item. 0 \<le> Quantity item) (Items m) \<and>
                  (OrderID m \<noteq> oid \<or> Items m = items))"

definition stock_of :: "int \<Rightarrow> world \<Rightarrow> int option" where
  "stock_of pid w = map_option stock (products (db w) pid)"

definition status_of :: "int \<Rightarrow> world \<Rightarrow> order_status option" where
  "status_of oid w = map_option status (orders (db w) oid)"

subsection \<open>A small shop\<close>

text \<open>
  The inputs of the scenarios: two products with stock 5 and 10, one customer, order 7
  placed and pending. \<open>calm\<close> is the environment in which no call fails, \<open>only_fails c\<close>
  the one in which exactly the call \<open>c\<close> does.
\<close>

text \<open>The amounts of the scenarios are small whole numbers, on which \<open>float64\<close>
  arithmetic does not round.\<close>

definition whole :: float64_ops where
  "whole = \<lparr>fadd = (\<lambda>x y. x + y), fmul = (\<lambda>x y. x * y), fint = real_of_int\<rparr>"

definition calm :: env where
  "calm = \<lparr>fails = (\<lambda>c. False), now = 0\<rparr>"

definition only_fails :: "io_call \<Rightarrow> env" where
  "only_fails c = \<lparr>fails = (\<lambda>x. x = c), now = 0\<rparr>"

definition shop :: database where
  "shop = \<lparr>products = [1 \<mapsto> \<lparr>name = ''Keyboard'', price = 20, stock = 5\<rparr>,
                        2 \<mapsto> \<lparr>name = ''Mouse'', price = 10, stock = 10\<rparr>],
           orders = [7 \<mapsto> \<lparr>user_id = 3, status = PENDING, total_amount = 40\<rparr>],
           order_items = [],
           users = [3 \<mapsto> ''ana@example.org'']\<rparr>"

definition start :: world where
  "start = \<lparr>db = shop, order_seq = 8, events = []\<rparr>"

definition line :: "int \<Rightarrow> int \<Rightarrow> OrderItemRequest" where
  "line pid q = \<lparr>ProductID = pid, Quantity = q\<rparr>"

definition placed :: "OrderItemRequest list \<Rightarrow> OrderPlacedMessage" where
  "placed items = \<lparr>OrderID = 7, UserID = 3, Items = items, TotalAmount = 40, Timestamp = 0\<rparr>"

section \<open>Lemmas about the settlement consumer\<close>

subsection \<open>The items loop\<close>

lemma with_products_same [simp]: "with_products t (products (view t)) = t"
  by (simp add: with_products_def)

lemma with_products_twice [simp]: "with_products (with_products t ps) ps' = with_products t ps'"
  by (simp add: with_products_def)

lemma products_with_products [simp]: "products (view (with_products t ps)) = ps"
  by (simp add: with_products_def)

lemma loop_step:
  assumes "loop_calls_succeed e" and "in_stock (products (view t)) item"
  shows "items_loop e msg i (item # rest) t w
           = items_loop e msg (Suc i) rest (with_products t (decrement (products (view t)) item)) w"
proof -
  from assms(2) obtain p where p: "products (view t) (ProductID item) = Some p"
    and q: "Quantity item \<le> stock p"
    by (auto simp: in_stock_def split: option.splits)
  have sel: "select_product_for_update e i t (ProductID item) = Inr (name p, stock p)"
    using assms(1) p by (simp add: select_product_for_update_def loop_calls_succeed_def)
  have upd: "update_stock e i t (Quantity item) (ProductID item)
               = Inr (1, with_products t (decrement (products (view t)) item))"
    using assms(1) p
    by (simp add: update_stock_def loop_calls_succeed_def with_products_def decrement_def)
  show ?thesis using sel upd q by simp
qed

lemma items_loop_all_in_stock:
  "loop_calls_succeed e \<Longrightarrow> all_in_stock (products (view t)) items \<Longrightarrow>
   items_loop e msg i items t w = Inl (with_products t (foldl decrement (products (view t)) items))"
proof (induction items arbitrary: i t)
  case Nil
  then show ?case by simp
next
  case (Cons item rest)
  then show ?case by (simp add: loop_step del: items_loop.simps)
qed

lemma loop_stop_missing:
  assumes "loop_calls_succeed e" and "products (view t) (ProductID bad) = None"
  shows "items_loop e msg i (bad # rest) t w =
     (case failOrder e t (OrderID msg) (UserID msg)
              (''Product #'' @ fmt_d (ProductID bad) @ '' not found'') w of
        (t', w') \<Rightarrow> Inr (None, deferred t' w'))"
  using assms by (simp add: select_product_for_update_def loop_calls_succeed_def)

lemma loop_stop_insufficient:
  assumes "loop_calls_succeed e" and "products (view t) (ProductID bad) = Some p"
    and "stock p < Quantity bad"
  shows "items_loop e msg i (bad # rest) t w =
     (case failOrder e t (OrderID msg) (UserID msg)
              (''Insufficient stock for '' @ name p @ ''. Available: ''
                 @ fmt_d (stock p) @ '', Requested: '' @ fmt_d (Quantity bad)) w of
        (t', w') \<Rightarrow> Inr (None, deferred t' w'))"
  using assms by (simp add: select_product_for_update_def loop_calls_succeed_def)

lemma items_loop_prefix:
  "loop_calls_succeed e \<Longrightarrow> all_in_stock (products (view t)) pre \<Longrightarrow>
   items_loop e msg i (pre @ rest) t w =
     items_loop e msg (i + length pre) rest
       (with_products t (foldl decrement (products (view t)) pre)) w"
proof (induction pre arbitrary: i t)
  case Nil
  then show ?case by simp
next
  case (Cons item pre)
  then show ?case by (simp add: loop_step del: items_loop.simps)
qed

subsection \<open>Stock after a run of decrements\<close>

lemma decrement_apply:
  "decrement ps item pid =
     (if pid = ProductID item then map_option (\<lambda>p. p\<lparr>stock := stock p - Quantity item\<rparr>) (ps pid)
      else ps pid)"
  by (simp add: decrement_def split: option.splits)

lemma requested_Cons:
  "requested pid (item # rest) =
     (if ProductID item = pid then Quantity item + requested pid rest else requested pid rest)"
  by (simp add: requested_def)

lemma foldl_decrement_apply:
  "foldl decrement ps items pid =
     map_option (\<lambda>p. p\<lparr>stock := stock p - requested pid items\<rparr>) (ps pid)"
proof (induction items arbitrary: ps)
  case Nil
  then show ?case by (simp add: requested_def option.map_ident)
next
  case (Cons item rest)
  have "foldl decrement ps (item # rest) pid = foldl decrement (decrement ps item) rest pid"
    by simp
  also have "\<dots> = map_option (\<lambda>p. p\<lparr>stock := stock p - requested pid rest\<rparr>)
                      (decrement ps item pid)"
    by (rule Cons.IH)
  also have "\<dots> = map_option (\<lambda>p. p\<lparr>stock := stock p - requested pid (item # rest)\<rparr>) (ps pid)"
    by (cases "ps pid") (auto simp: decrement_apply requested_Cons algebra_simps)
  finally show ?case .
qed

subsection \<open>Single calls\<close>

lemma Begin_ok: "\<not> fails e OpBegin \<Longrightarrow> Begin e w = Inr \<lparr>view = db w, closed = False\<rparr>"
  by (simp add: Begin_def)

lemma update_status_ok:
  "\<not> fails e OpUpdateStatus \<Longrightarrow>
   update_status e t s oid = Inr (t\<lparr>view := (view t)\<lparr>orders := set_status (orders (view t)) oid s\<rparr>\<rparr>)"
  by (simp add: update_status_def set_status_def split: option.splits)

lemma Commit_ok:
  "\<not> fails e OpCommit \<Longrightarrow> \<not> closed t \<Longrightarrow>
   Commit e t w = (None, t\<lparr>closed := True\<rparr>, w\<lparr>db := view t, events := events w @ [TxCommit]\<rparr>)"
  by (simp add: Commit_def)

lemma deferred_closed: "closed t \<Longrightarrow> deferred t w = w"
  by (simp add: deferred_def Rollback_def)

lemma deferred_open: "\<not> closed t \<Longrightarrow> deferred t w = w\<lparr>events := events w @ [TxRollback]\<rparr>"
  by (simp add: deferred_def Rollback_def)

lemma db_deferred [simp]: "db (deferred t w) = db w"
  by (simp add: deferred_def Rollback_def)

lemma db_select_email [simp]: "db (snd (select_email e w uid)) = db w"
  by (simp add: select_email_def split: option.splits)

lemma db_Publish [simp]: "db (snd (Publish e q m w)) = db w"
  by (simp add: Publish_def)

subsection \<open>The three ends of the success path\<close>

lemma success_path:
  assumes "\<not> fails e OpBegin" and "loop_calls_succeed e"
    and "all_in_stock (products (db w)) (Items msg)"
    and "\<not> fails e OpUpdateStatus" and "\<not> fails e OpCommit"
  shows "ProcessOrder e (Some msg) w =
     (case select_email e
             (w\<lparr>db := settled (db w) (Items msg) (OrderID msg) CONFIRMED,
                events := events w @ [TxCommit]\<rparr>) (UserID msg) of
        (Inl email_err, w4) \<Rightarrow> (Some (Wrap ''failed to send email'' email_err), w4)
      | (Inr userEmail, w4) \<Rightarrow>
          (None, snd (Publish e QueueOrderConfirmed
                        (MsgConfirmed \<lparr>cOrderID = OrderID msg, cUserID = UserID msg,
                           cUserEmail = userEmail, cTimestamp = now e\<rparr>) w4)))"
proof -
  let ?t = "\<lparr>view = db w, closed = False\<rparr>"
  have loop: "items_loop e msg 0 (Items msg) ?t w
        = Inl (with_products ?t (foldl decrement (products (db w)) (Items msg)))"
    using items_loop_all_in_stock [of e ?t "Items msg" msg 0 w] assms(2,3) by simp
  show ?thesis
    using assms(1,4,5)
    by (simp add: ProcessOrder_def Begin_ok loop update_status_ok Commit_ok with_products_def
        settled_def deferred_closed split: prod.splits sum.splits)
qed

subsection \<open>The failure path\<close>

lemma loop_stop:
  assumes "loop_calls_succeed e" and "\<not> in_stock (products (view t)) bad"
  shows "items_loop e msg i (bad # rest) t w =
     (case failOrder e t (OrderID msg) (UserID msg) (failure_reason (products (view t)) bad) w of
        (t', w') \<Rightarrow> Inr (None, deferred t' w'))"
proof (cases "products (view t) (ProductID bad)")
  case None
  then show ?thesis
    using loop_stop_missing [OF assms(1) None] by (simp add: failure_reason_def)
next
  case (Some p)
  with assms(2) have "stock p < Quantity bad" by (simp add: in_stock_def)
  then show ?thesis
    using loop_stop_insufficient [OF assms(1) Some] by (simp add: failure_reason_def Some)
qed

lemma failOrder_ok:
  assumes "\<not> fails e OpUpdateStatus" and "\<not> fails e OpCommit" and "\<not> closed t"
  shows "failOrder e t oid uid reason w =
     (t\<lparr>view := (view t)\<lparr>orders := set_status (orders (view t)) oid CANCELLED\<rparr>, closed := True\<rparr>,
      (case select_email e
              (w\<lparr>db := (view t)\<lparr>orders := set_status (orders (view t)) oid CANCELLED\<rparr>,
                 events := events w @ [TxCommit]\<rparr>) uid of
         (Inl err, w3) \<Rightarrow> w3
       | (Inr userEmail, w3) \<Rightarrow>
           snd (Publish e QueueOrderFailed
                  (MsgFailed \<lparr>fOrderID = oid, fUserID = uid, fUserEmail = userEmail,
                              fReason = reason, fTimestamp = now e\<rparr>) w3)))"
  using assms
  by (simp add: failOrder_def update_status_ok Commit_ok split: prod.splits sum.splits)

lemma failure_path_returns_nil:
  assumes "\<not> fails e OpBegin" and "loop_calls_succeed e"
    and "Items msg = pre @ bad # rest"
    and "all_in_stock (products (db w)) pre"
    and "\<not> in_stock (foldl decrement (products (db w)) pre) bad"
  shows "fst (ProcessOrder e (Some msg) w) = None"
proof -
  let ?t = "\<lparr>view = db w, closed = False\<rparr>"
  have "items_loop e msg 0 (Items msg) ?t w =
          items_loop e msg (0 + length pre) (bad # rest)
            (with_products ?t (foldl decrement (products (view ?t)) pre)) w"
    unfolding assms(3) using assms(2,4) by (intro items_loop_prefix) simp_all
  then show ?thesis
    using assms(1,2,5)
    by (simp add: ProcessOrder_def Begin_ok loop_stop split: prod.splits del: items_loop.simps)
qed

lemma failure_path:
  assumes "\<not> fails e OpBegin" and "loop_calls_succeed e"
    and "Items msg = pre @ bad # rest"
    and "all_in_stock (products (db w)) pre"
    and "\<not> in_stock (foldl decrement (products (db w)) pre) bad"
    and "\<not> fails e OpUpdateStatus" and "\<not> fails e OpCommit"
  shows "ProcessOrder e (Some msg) w =
     (None,
      (case select_email e
              (w\<lparr>db := settled (db w) pre (OrderID msg) CANCELLED,
                 events := events w @ [TxCommit]\<rparr>) (UserID msg) of
         (Inl err, w3) \<Rightarrow> w3
       | (Inr userEmail, w3) \<Rightarrow>
           snd (Publish e QueueOrderFailed
                  (MsgFailed \<lparr>fOrderID = OrderID msg, fUserID = UserID msg,
                     fUserEmail = userEmail,
                     fReason = failure_reason (foldl decrement (products (db w)) pre) bad,
                     fTimestamp = now e\<rparr>) w3)))"
proof -
  let ?t = "\<lparr>view = db w, closed = False\<rparr>"
  have "items_loop e msg 0 (Items msg) ?t w =
          items_loop e msg (0 + length pre) (bad # rest)
            (with_products ?t (foldl decrement (products (view ?t)) pre)) w"
    unfolding assms(3) using assms(2,4) by (intro items_loop_prefix) simp_all
  then show ?thesis
    using assms(1,2,5,6,7)
    by (simp add: ProcessOrder_def Begin_ok loop_stop failOrder_ok with_products_def settled_def
        deferred_closed split: prod.splits sum.splits del: items_loop.simps)
qed

subsection \<open>Invariants of the committed database\<close>

text \<open>
  Whatever fails, \<open>ProcessOrder\<close> changes the committed database only by installing a view
  built from it by decrements that passed their stock check and by one status update to
  CONFIRMED or CANCELLED. A property of databases kept by these two steps is therefore kept
  by every handler execution.
\<close>

lemma update_stock_keeps:
  assumes dec: "\<And>d pid p q. Q d \<Longrightarrow> products d pid = Some p \<Longrightarrow> q \<le> stock p \<Longrightarrow>
                  Q (d\<lparr>products := (products d)(pid \<mapsto> p\<lparr>stock := stock p - q\<rparr>)\<rparr>)"
    and "Q (view t)" and "products (view t) pid = Some p" and "q \<le> stock p"
    and "update_stock e i t q pid = Inr (n, t')"
  shows "Q (view t')"
  using assms(2-) dec [of "view t" pid p q]
  by (auto simp: update_stock_def split: if_splits)

lemma update_status_keeps:
  assumes st: "\<And>d oid r s. Q d \<Longrightarrow> orders d oid = Some r \<Longrightarrow> terminal s \<Longrightarrow>
                  Q (d\<lparr>orders := (orders d)(oid \<mapsto> r\<lparr>status := s\<rparr>)\<rparr>)"
    and "Q (view t)" and "terminal s" and "update_status e t s oid = Inr t'"
  shows "Q (view t')"
  using assms(2-) st [of "view t" oid _ s]
  by (auto simp: update_status_def split: if_splits option.splits)

lemma Commit_keeps:
  assumes "Q (view t)" and "Q (db w)" and "Commit e t w = (r, t', w')"
  shows "Q (db w')"
  using assms by (auto simp: Commit_def split: if_splits)

lemma failOrder_keeps:
  assumes st: "\<And>d oid r s. Q d \<Longrightarrow> orders d oid = Some r \<Longrightarrow> terminal s \<Longrightarrow>
                  Q (d\<lparr>orders := (orders d)(oid \<mapsto> r\<lparr>status := s\<rparr>)\<rparr>)"
    and "Q (view t)" and "Q (db w)"
  shows "Q (db (snd (failOrder e t oid uid reason w)))"
proof (cases "update_status e t CANCELLED oid")
  case (Inl err)
  then show ?thesis using assms(3) by (simp add: failOrder_def)
next
  case (Inr t1)
  have t1: "Q (view t1)"
    using update_status_keeps [of Q t CANCELLED e oid t1] st assms(2) Inr
    by (simp add: terminal_def)
  obtain r t2 w2 where c: "Commit e t1 w = (r, t2, w2)"
    by (cases "Commit e t1 w") auto
  have w2: "Q (db w2)" using Commit_keeps [OF t1 assms(3) c] .
  have after: "Q (db (snd (select_email e w2 uid)))" using w2 by simp
  show ?thesis
  proof (cases r)
    case (Some err)
    then show ?thesis using Inr c w2 by (simp add: failOrder_def)
  next
    case None
    obtain x w3 where s: "select_email e w2 uid = (x, w3)"
      by (cases "select_email e w2 uid") auto
    with after have "Q (db w3)" by simp
    then show ?thesis
      using Inr c None s by (cases x) (simp_all add: failOrder_def)
  qed
qed

lemma items_loop_keeps:
  assumes dec: "\<And>d pid p q. Q d \<Longrightarrow> products d pid = Some p \<Longrightarrow> q \<le> stock p \<Longrightarrow>
                  Q (d\<lparr>products := (products d)(pid \<mapsto> p\<lparr>stock := stock p - q\<rparr>)\<rparr>)"
    and st: "\<And>d oid r s. Q d \<Longrightarrow> orders d oid = Some r \<Longrightarrow> terminal s \<Longrightarrow>
                  Q (d\<lparr>orders := (orders d)(oid \<mapsto> r\<lparr>status := s\<rparr>)\<rparr>)"
    and "Q (view t)" and "Q (db w)"
  shows "case items_loop e msg i items t w of
           Inl t' \<Rightarrow> Q (view t')
         | Inr (r, w') \<Rightarrow> Q (db w')"
  using assms(3,4)
proof (induction items arbitrary: i t)
  case Nil
  then show ?case by simp
next
  case (Cons item rest)
  have fail: "Q (db (deferred (fst (failOrder e t oid uid reason w))
                       (snd (failOrder e t oid uid reason w))))" for oid uid reason
    using failOrder_keeps [of Q t w e oid uid reason] st Cons.prems by simp
  show ?case
  proof (cases "select_product_for_update e i t (ProductID item)")
    case (Inl err)
    then show ?thesis
      using fail Cons.prems(2) by (simp add: case_prod_unfold)
  next
    case (Inr row)
    obtain productName currentStock where row: "row = (productName, currentStock)"
      by (cases row) auto
    from Inr row obtain p where p: "products (view t) (ProductID item) = Some p"
      and cur: "currentStock = stock p"
      by (auto simp: select_product_for_update_def split: if_splits option.splits)
    show ?thesis
    proof (cases "currentStock < Quantity item")
      case True
      then show ?thesis using Inr row fail by (simp add: case_prod_unfold)
    next
      case False
      show ?thesis
      proof (cases "update_stock e i t (Quantity item) (ProductID item)")
        case (Inl err)
        then show ?thesis using Inr row False Cons.prems(2) by simp
      next
        case upd: (Inr res)
        obtain n t' where res: "res = (n, t')" by (cases res) auto
        have "Q (view t')"
          using update_stock_keeps [of Q t "ProductID item" p "Quantity item" e i n t']
            dec Cons.prems(1) p False cur upd res by simp
        then show ?thesis
          using Inr row False upd res Cons.prems(2) Cons.IH [of t' "Suc i"] by simp
      qed
    qed
  qed
qed

lemma ProcessOrder_keeps:
  assumes dec: "\<And>d pid p q. Q d \<Longrightarrow> products d pid = Some p \<Longrightarrow> q \<le> stock p \<Longrightarrow>
                  Q (d\<lparr>products := (products d)(pid \<mapsto> p\<lparr>stock := stock p - q\<rparr>)\<rparr>)"
    and st: "\<And>d oid r s. Q d \<Longrightarrow> orders d oid = Some r \<Longrightarrow> terminal s \<Longrightarrow>
                  Q (d\<lparr>orders := (orders d)(oid \<mapsto> r\<lparr>status := s\<rparr>)\<rparr>)"
    and "Q (db w)"
  shows "Q (db (snd (ProcessOrder e body w)))"
proof (cases body)
  case None
  then show ?thesis using assms(3) by (simp add: ProcessOrder_def)
next
  case (Some msg)
  show ?thesis
  proof (cases "Begin e w")
    case (Inl err)
    then show ?thesis using Some assms(3) by (simp add: ProcessOrder_def)
  next
    case (Inr t)
    then have t: "Q (view t)" using assms(3) by (auto simp: Begin_def split: if_splits)
    have loop: "case items_loop e msg 0 (Items msg) t w of
                  Inl t' \<Rightarrow> Q (view t') | Inr (r, w') \<Rightarrow> Q (db w')"
      using items_loop_keeps [of Q t w e msg 0 "Items msg"] dec st t assms(3) by simp
    show ?thesis
    proof (cases "items_loop e msg 0 (Items msg) t w")
      case early: (Inr r)
      then show ?thesis using Some Inr loop by (simp add: ProcessOrder_def case_prod_unfold)
    next
      case (Inl t1)
      with loop have t1: "Q (view t1)" by simp
      show ?thesis
      proof (cases "update_status e t1 CONFIRMED (OrderID msg)")
        case err: (Inl err)
        then show ?thesis using Some Inr Inl assms(3) by (simp add: ProcessOrder_def)
      next
        case upd: (Inr t2)
        have t2: "Q (view t2)"
          using update_status_keeps [of Q t1 CONFIRMED e "OrderID msg" t2] st t1 upd
          by (simp add: terminal_def)
        obtain r t3 w3 where c: "Commit e t2 w = (r, t3, w3)"
          by (cases "Commit e t2 w") auto
        have w3: "Q (db w3)" using Commit_keeps [OF t2 assms(3) c] .
        obtain x w4 where s: "select_email e w3 (UserID msg) = (x, w4)"
          by (cases "select_email e w3 (UserID msg)") auto
        have w4: "Q (db w4)" using w3 db_select_email [of e w3 "UserID msg"] s by simp
        show ?thesis
          using Some Inr Inl upd c s w3 w4
          by (cases r; cases x) (simp_all add: ProcessOrder_def case_prod_unfold)
      qed
    qed
  qed
qed

lemma handle_all_keeps:
  assumes dec: "\<And>d pid p q. Q d \<Longrightarrow> products d pid = Some p \<Longrightarrow> q \<le> stock p \<Longrightarrow>
                  Q (d\<lparr>products := (products d)(pid \<mapsto> p\<lparr>stock := stock p - q\<rparr>)\<rparr>)"
    and st: "\<And>d oid r s. Q d \<Longrightarrow> orders d oid = Some r \<Longrightarrow> terminal s \<Longrightarrow>
                  Q (d\<lparr>orders := (orders d)(oid \<mapsto> r\<lparr>status := s\<rparr>)\<rparr>)"
    and "Q (db w)" and "w' \<in> set (handle_all deliveries w)"
  shows "Q (db w')"
  using assms(3,4)
proof (induction deliveries arbitrary: w)
  case Nil
  then show ?case by simp
next
  case (Cons d rest)
  obtain e body where d: "d = (e, body)" by (cases d) auto
  let ?w1 = "snd (ProcessOrder e body w)"
  have w1: "Q (db ?w1)" using ProcessOrder_keeps [of Q w e body] dec st Cons.prems(1) by simp
  from Cons.prems(2) d have "w' = ?w1 \<or> w' \<in> set (handle_all rest ?w1)"
    by (auto simp: case_prod_unfold)
  then show ?case using w1 Cons.IH [of ?w1] by auto
qed

section \<open>Properties of the settlement consumer\<close>

subsection \<open>Stock\<close>

text \<open>
  C7. Stock never negative. Take a product whose stock is not negative, and any sequence
  of placement messages handled one after the other by \<open>ProcessOrder\<close>, whatever fails
  during each execution. After every handler execution the product is still there and its
  stock is still not negative: a decrement by \<open>q\<close> is only issued after the stock read in
  the same transaction was found to be at least \<open>q\<close>.
\<close>

theorem stock_never_negative:
  assumes "stock_of pid w = Some n" and "0 \<le> n"
    and "w' \<in> set (handle_all deliveries w)"
  shows "\<exists>n'. stock_of pid w' = Some n' \<and> 0 \<le> n'"
proof -
  let ?Q = "\<lambda>d. \<exists>p. products d pid = Some p \<and> 0 \<le> stock p"
  have "?Q (db w)" using assms(1,2) by (auto simp: stock_of_def)
  moreover have "?Q (d\<lparr>products := (products d)(pid' \<mapsto> p\<lparr>stock := stock p - q\<rparr>)\<rparr>)"
    if "?Q d" "products d pid' = Some p" "q \<le> stock p" for d pid' p q
    using that by auto
  moreover have "?Q (d\<lparr>orders := (orders d)(oid \<mapsto> r\<lparr>status := s\<rparr>)\<rparr>)"
    if "?Q d" for d oid r s
    using that by simp
  ultimately have "?Q (db w')"
    using handle_all_keeps [where Q = ?Q and w = w and w' = w' and deliveries = deliveries]
      assms(3) by blast
  then show ?thesis by (auto simp: stock_of_def)
qed

theorem stock_never_negative_witness:
  "stock_of 1 start = Some 5 \<and>
   handle_all [(calm, Some (placed [line 1 2, line 2 100])), (calm, Some (placed [line 1 3]))] start \<noteq> [] \<and>
   (\<exists>n'. stock_of 1 (last (handle_all [(calm, Some (placed [line 1 2, line 2 100])),
                                       (calm, Some (placed [line 1 3]))] start)) = Some n'
         \<and> 0 \<le> n')"
proof -
  let ?ds = "[(calm, Some (placed [line 1 2, line 2 100])), (calm, Some (placed [line 1 3]))]"
  have h1: "stock_of 1 start = Some 5" by (simp add: stock_of_def start_def shop_def)
  have h2: "(0::int) \<le> 5" by simp
  have ne: "handle_all ?ds start \<noteq> []" by (simp add: case_prod_unfold)
  then have h3: "last (handle_all ?ds start) \<in> set (handle_all ?ds start)"
    by (rule last_in_set)
  from stock_never_negative [OF h1 h2 h3] h1 ne show ?thesis by simp
qed

subsection \<open>Reading a settled database\<close>

lemma stock_of_settled:
  "db w' = settled (db w) items oid s \<Longrightarrow>
   stock_of pid w' = map_option (\<lambda>n. n - requested pid items) (stock_of pid w)"
  by (simp add: stock_of_def settled_def foldl_decrement_apply option.map_comp comp_def)

lemma status_of_settled:
  "db w' = settled (db w) items oid s \<Longrightarrow>
   status_of oid w' = map_option (\<lambda>x. s) (status_of oid w)"
  by (simp add: status_of_def settled_def set_status_def option.map_comp comp_def
      split: option.splits)

lemma select_email_ok:
  "\<not> fails e OpSelectEmail \<Longrightarrow> users (db w) uid = Some m \<Longrightarrow>
   select_email e w uid = (Inr m, w\<lparr>events := events w @ [EmailResolved uid]\<rparr>)"
  by (simp add: select_email_def)

lemma select_email_fails:
  "fails e OpSelectEmail \<or> users (db w) uid = None \<Longrightarrow>
   select_email e w uid = (Inl (if fails e OpSelectEmail then ErrIO else ErrNoRows), w)"
  by (auto simp: select_email_def)

lemma users_settled [simp]: "users (settled d items oid s) = users d"
  by (simp add: settled_def)

subsection \<open>Settlement of a message that fails\<close>

text \<open>
  C2. Failure path of settlement. Let the items of a placement message be \<open>pre\<close>, then
  \<open>bad\<close>, then \<open>rest\<close>, where every item of \<open>pre\<close> passes its stock check and \<open>bad\<close> is the
  first that does not (its product is missing, or the stock read under the lock is below
  the quantity), and let the transaction start and the calls of the loop succeed. Then
  \<open>ProcessOrder\<close> returns nil, whatever happens later. When the status update, the
  commit, the lookup of the email and the publish succeed as well, the committed database
  is the old one with the stock of the items of \<open>pre\<close> taken off, nothing taken off for
  \<open>bad\<close> and \<open>rest\<close>, and the order CANCELLED, all in one commit; after the commit one
  \<open>order_failed\<close> event is published whose reason names the missing product, or the
  product with the available and the requested quantity.
\<close>

theorem failure_path_settlement:
  assumes "\<not> fails e OpBegin" and "loop_calls_succeed e"
    and "Items msg = pre @ bad # rest"
    and "all_in_stock (products (db w)) pre"
    and "\<not> in_stock (foldl decrement (products (db w)) pre) bad"
  shows "fst (ProcessOrder e (Some msg) w) = None \<and>
    (\<not> fails e OpUpdateStatus \<and> \<not> fails e OpCommit \<and> \<not> fails e OpSelectEmail \<and>
     users (db w) (UserID msg) = Some userEmail \<and> \<not> fails e OpPublish \<longrightarrow>
       snd (ProcessOrder e (Some msg) w) =
         w\<lparr>db := settled (db w) pre (OrderID msg) CANCELLED,
           events := events w @
             [TxCommit, EmailResolved (UserID msg),
              Published QueueOrderFailed
                (MsgFailed \<lparr>fOrderID = OrderID msg, fUserID = UserID msg,
                   fUserEmail = userEmail,
                   fReason =
                     (case foldl decrement (products (db w)) pre (ProductID bad) of
                        None \<Rightarrow> ''Product #'' @ fmt_d (ProductID bad) @ '' not found''
                      | Some p \<Rightarrow>
                          ''Insufficient stock for '' @ name p @ ''. Available: ''
                            @ fmt_d (stock p) @ '', Requested: '' @ fmt_d (Quantity bad)),
                   fTimestamp = now e\<rparr>)]\<rparr> \<and>
       (\<forall>pid. stock_of pid (snd (ProcessOrder e (Some msg) w))
                = map_option (\<lambda>n. n - requested pid pre) (stock_of pid w)) \<and>
       status_of (OrderID msg) (snd (ProcessOrder e (Some msg) w))
         = map_option (\<lambda>x. CANCELLED) (status_of (OrderID msg) w))"
proof (intro conjI impI)
  show "fst (ProcessOrder e (Some msg) w) = None"
    using assms by (rule failure_path_returns_nil)
next
  assume ok: "\<not> fails e OpUpdateStatus \<and> \<not> fails e OpCommit \<and> \<not> fails e OpSelectEmail \<and>
     users (db w) (UserID msg) = Some userEmail \<and> \<not> fails e OpPublish"
  let ?w' = "snd (ProcessOrder e (Some msg) w)"
  show w': "?w' =
         w\<lparr>db := settled (db w) pre (OrderID msg) CANCELLED,
           events := events w @
             [TxCommit, EmailResolved (UserID msg),
              Published QueueOrderFailed
                (MsgFailed \<lparr>fOrderID = OrderID msg, fUserID = UserID msg,
                   fUserEmail = userEmail,
                   fReason =
                     (case foldl decrement (products (db w)) pre (ProductID bad) of
                        None \<Rightarrow> ''Product #'' @ fmt_d (ProductID bad) @ '' not found''
                      | Some p \<Rightarrow>
                          ''Insufficient stock for '' @ name p @ ''. Available: ''
                            @ fmt_d (stock p) @ '', Requested: '' @ fmt_d (Quantity bad)),
                   fTimestamp = now e\<rparr>)]\<rparr>"
    using ok failure_path [OF assms]
    by (simp add: select_email_ok Publish_def failure_reason_def)
  then have d: "db ?w' = settled (db w) pre (OrderID msg) CANCELLED" by simp
  show "\<forall>pid. stock_of pid ?w' = map_option (\<lambda>n. n - requested pid pre) (stock_of pid w)"
    using stock_of_settled [OF d] by simp
  show "status_of (OrderID msg) ?w' = map_option (\<lambda>x. CANCELLED) (status_of (OrderID msg) w)"
    using status_of_settled [OF d] .
qed


theorem failure_path_settlement_witness:
  "fst (ProcessOrder calm (Some (placed [line 1 2, line 2 100])) start) = None \<and>
   stock_of 1 (snd (ProcessOrder calm (Some (placed [line 1 2, line 2 100])) start)) = Some 3 \<and>
   stock_of 2 (snd (ProcessOrder calm (Some (placed [line 1 2, line 2 100])) start)) = Some 10 \<and>
   status_of 7 (snd (ProcessOrder calm (Some (placed [line 1 2, line 2 100])) start))
     = Some CANCELLED \<and>
   events (snd (ProcessOrder calm (Some (placed [line 1 2, line 2 100])) start)) =
     [TxCommit, EmailResolved 3,
      Published ''order_failed''
        (MsgFailed \<lparr>fOrderID = 7, fUserID = 3, fUserEmail = ''ana@example.org'',
           fReason = ''Insufficient stock for Mouse. Available: 10, Requested: 100'',
           fTimestamp = 0\<rparr>)]"
proof -
  let ?msg = "placed [line 1 2, line 2 100]"
  have h1: "\<not> fails calm OpBegin" by (simp add: calm_def)
  have h2: "loop_calls_succeed calm" by (simp add: loop_calls_succeed_def calm_def)
  have h3: "Items ?msg = [line 1 2] @ line 2 100 # []" by (simp add: placed_def)
  have h4: "all_in_stock (products (db start)) [line 1 2]"
    by (simp add: in_stock_def start_def shop_def line_def)
  have h5: "\<not> in_stock (foldl decrement (products (db start)) [line 1 2]) (line 2 100)"
    by (simp add: in_stock_def decrement_def start_def shop_def line_def)
  have ok: "\<not> fails calm OpUpdateStatus \<and> \<not> fails calm OpCommit \<and> \<not> fails calm OpSelectEmail \<and>
     users (db start) (UserID ?msg) = Some ''ana@example.org'' \<and> \<not> fails calm OpPublish"
    by (simp add: calm_def start_def shop_def placed_def)
  have d10: "fmt_d 10 = ''10''" and d100: "fmt_d 100 = ''100''" by code_simp+
  define w' where "w' = snd (ProcessOrder calm (Some ?msg) start)"
  have ids: "OrderID ?msg = 7" "UserID ?msg = 3" by (simp_all add: placed_def)
  note th = failure_path_settlement [OF h1 h2 h3 h4 h5, of "''ana@example.org''",
      folded w'_def, unfolded ids]
  from th have r: "fst (ProcessOrder calm (Some ?msg) start) = None" by simp
  from th ok [unfolded ids]
  have full: "w' = start
       \<lparr>db := settled (db start) [line 1 2] 7 CANCELLED,
          events := events start @
             [TxCommit, EmailResolved 3,
              Published QueueOrderFailed
                (MsgFailed \<lparr>fOrderID = 7, fUserID = 3, fUserEmail = ''ana@example.org'',
                   fReason =
                     (case foldl decrement (products (db start)) [line 1 2]
                             (ProductID (line 2 100)) of
                        None \<Rightarrow> ''Product #'' @ fmt_d (ProductID (line 2 100)) @ '' not found''
                      | Some p \<Rightarrow>
                          ''Insufficient stock for '' @ name p @ ''. Available: ''
                            @ fmt_d (stock p) @ '', Requested: ''
                            @ fmt_d (Quantity (line 2 100))),
                   fTimestamp = now calm\<rparr>)]\<rparr>"
    and st: "\<forall>pid. stock_of pid w' = map_option (\<lambda>n. n - requested pid [line 1 2])
                                              (stock_of pid start)"
    and os: "status_of 7 w' = map_option (\<lambda>x. CANCELLED) (status_of 7 start)"
    by blast+
  have ev: "events w' = events start @
             [TxCommit, EmailResolved 3,
              Published QueueOrderFailed
                (MsgFailed \<lparr>fOrderID = 7, fUserID = 3, fUserEmail = ''ana@example.org'',
                   fReason =
                     (case foldl decrement (products (db start)) [line 1 2]
                             (ProductID (line 2 100)) of
                        None \<Rightarrow> ''Product #'' @ fmt_d (ProductID (line 2 100)) @ '' not found''
                      | Some p \<Rightarrow>
                          ''Insufficient stock for '' @ name p @ ''. Available: ''
                            @ fmt_d (stock p) @ '', Requested: ''
                            @ fmt_d (Quantity (line 2 100))),
                   fTimestamp = now calm\<rparr>)]"
    by (subst full) simp
  have s1: "stock_of 1 w' = Some 3"
    using st by (simp add: stock_of_def start_def shop_def requested_def line_def)
  have s2: "stock_of 2 w' = Some 10"
    using st by (simp add: stock_of_def start_def shop_def requested_def line_def)
  have s7: "status_of 7 w' = Some CANCELLED"
    using os by (simp add: status_of_def start_def shop_def)
  have e: "events w' =
     [TxCommit, EmailResolved 3,
      Published ''order_failed''
        (MsgFailed \<lparr>fOrderID = 7, fUserID = 3, fUserEmail = ''ana@example.org'',
           fReason = ''Insufficient stock for Mouse. Available: 10, Requested: 100'',
           fTimestamp = 0\<rparr>)]"
    unfolding ev
    by (simp add: start_def shop_def line_def decrement_def calm_def QueueOrderFailed_def
        d10 d100)
  from r s1 s2 s7 e show ?thesis unfolding w'_def by simp
qed

subsection \<open>Settlement of a message that succeeds\<close>

lemma success_path_db:
  assumes "\<not> fails e OpBegin" and "loop_calls_succeed e"
    and "all_in_stock (products (db w)) (Items msg)"
    and "\<not> fails e OpUpdateStatus" and "\<not> fails e OpCommit"
  shows "db (snd (ProcessOrder e (Some msg) w)) = settled (db w) (Items msg) (OrderID msg) CONFIRMED"
proof -
  let ?w3 = "w\<lparr>db := settled (db w) (Items msg) (OrderID msg) CONFIRMED,
               events := events w @ [TxCommit]\<rparr>"
  obtain x w4 where s: "select_email e ?w3 (UserID msg) = (x, w4)"
    by (cases "select_email e ?w3 (UserID msg)") auto
  have "db w4 = db ?w3" using db_select_email [of e ?w3 "UserID msg"] s by simp
  then show ?thesis
    using success_path [OF assms] s by (cases x) simp_all
qed

text \<open>
  C3 (as the code has it). Success path of settlement. Let every item of a placement
  message pass its stock check when the loop reaches it: its product exists and the
  stock read under the lock, which is the committed stock less what the earlier items of
  the same message took from that product, is at least the quantity. Let no call of the
  execution fail and the user have an email. Then \<open>ProcessOrder\<close> takes from every product
  the quantities the message requests of it, sets the order CONFIRMED, commits both in one
  transaction, and only after the commit resolves the email and publishes one
  \<open>order_confirmed\<close> event with the order id, the user id and that email. It returns nil.
\<close>

theorem success_path_settlement:
  assumes "\<not> fails e OpBegin" and "loop_calls_succeed e"
    and "all_in_stock (products (db w)) (Items msg)"
    and "\<not> fails e OpUpdateStatus" and "\<not> fails e OpCommit"
    and "\<not> fails e OpSelectEmail" and "users (db w) (UserID msg) = Some userEmail"
    and "\<not> fails e OpPublish"
  shows "ProcessOrder e (Some msg) w =
      (None,
       w\<lparr>db := settled (db w) (Items msg) (OrderID msg) CONFIRMED,
         events := events w @
           [TxCommit, EmailResolved (UserID msg),
            Published QueueOrderConfirmed
              (MsgConfirmed \<lparr>cOrderID = OrderID msg, cUserID = UserID msg,
                 cUserEmail = userEmail, cTimestamp = now e\<rparr>)]\<rparr>) \<and>
    (\<forall>pid. stock_of pid (snd (ProcessOrder e (Some msg) w))
             = map_option (\<lambda>n. n - requested pid (Items msg)) (stock_of pid w)) \<and>
    status_of (OrderID msg) (snd (ProcessOrder e (Some msg) w))
      = map_option (\<lambda>x. CONFIRMED) (status_of (OrderID msg) w)"
proof -
  have d: "db (snd (ProcessOrder e (Some msg) w))
             = settled (db w) (Items msg) (OrderID msg) CONFIRMED"
    using assms(1-5) by (rule success_path_db)
  have "ProcessOrder e (Some msg) w =
      (None,
       w\<lparr>db := settled (db w) (Items msg) (OrderID msg) CONFIRMED,
         events := events w @
           [TxCommit, EmailResolved (UserID msg),
            Published QueueOrderConfirmed
              (MsgConfirmed \<lparr>cOrderID = OrderID msg, cUserID = UserID msg,
                 cUserEmail = userEmail, cTimestamp = now e\<rparr>)]\<rparr>)"
    using success_path [OF assms(1-5)] assms(6-8)
    by (simp add: select_email_ok Publish_def)
  then show ?thesis
    using stock_of_settled [OF d] status_of_settled [OF d] by simp
qed

theorem success_path_settlement_witness:
  "fst (ProcessOrder calm (Some (placed [line 1 2])) start) = None \<and>
   stock_of 1 (snd (ProcessOrder calm (Some (placed [line 1 2])) start)) = Some 3 \<and>
   status_of 7 (snd (ProcessOrder calm (Some (placed [line 1 2])) start)) = Some CONFIRMED \<and>
   events (snd (ProcessOrder calm (Some (placed [line 1 2])) start)) =
     [TxCommit, EmailResolved 3,
      Published ''order_confirmed''
        (MsgConfirmed \<lparr>cOrderID = 7, cUserID = 3, cUserEmail = ''ana@example.org'',
           cTimestamp = 0\<rparr>)]"
proof -
  let ?msg = "placed [line 1 2]"
  have h1: "\<not> fails calm OpBegin" by (simp add: calm_def)
  have h2: "loop_calls_succeed calm" by (simp add: loop_calls_succeed_def calm_def)
  have h3: "all_in_stock (products (db start)) (Items ?msg)"
    by (simp add: in_stock_def start_def shop_def line_def placed_def)
  have h4: "\<not> fails calm OpUpdateStatus" and h5: "\<not> fails calm OpCommit"
    and h6: "\<not> fails calm OpSelectEmail" and h8: "\<not> fails calm OpPublish"
    by (simp_all add: calm_def)
  have h7: "users (db start) (UserID ?msg) = Some ''ana@example.org''"
    by (simp add: start_def shop_def placed_def)
  define w' where "w' = snd (ProcessOrder calm (Some ?msg) start)"
  have ids: "OrderID ?msg = 7" "UserID ?msg = 3" "Items ?msg = [line 1 2]"
    by (simp_all add: placed_def)
  note th = success_path_settlement [OF h1 h2 h3 h4 h5 h6 h7 h8, unfolded ids]
  from th have r: "fst (ProcessOrder calm (Some ?msg) start) = None" by simp
  from th have ev: "events (snd (ProcessOrder calm (Some ?msg) start)) = events start @
           [TxCommit, EmailResolved 3,
            Published QueueOrderConfirmed
              (MsgConfirmed \<lparr>cOrderID = 7, cUserID = 3,
                 cUserEmail = ''ana@example.org'', cTimestamp = now calm\<rparr>)]"
    by simp
  from th have st: "\<forall>pid. stock_of pid w' = map_option (\<lambda>n. n - requested pid [line 1 2])
                                              (stock_of pid start)"
    and os: "status_of 7 w' = map_option (\<lambda>x. CONFIRMED) (status_of 7 start)"
    unfolding w'_def by blast+
  have s1: "stock_of 1 w' = Some 3"
    using st by (simp add: stock_of_def start_def shop_def requested_def line_def)
  have s7: "status_of 7 w' = Some CONFIRMED"
    using os by (simp add: status_of_def start_def shop_def)
  have e: "events w' =
     [TxCommit, EmailResolved 3,
      Published ''order_confirmed''
        (MsgConfirmed \<lparr>cOrderID = 7, cUserID = 3, cUserEmail = ''ana@example.org'',
           cTimestamp = 0\<rparr>)]"
    unfolding w'_def ev by (simp add: start_def calm_def QueueOrderConfirmed_def)
  from r s1 s7 e show ?thesis unfolding w'_def by simp
qed

text \<open>
  C3 as stated does not hold: read against the committed stock alone, the condition on
  the items is not enough. Order 7 has two
  lines of three keyboards each and there are five: each line names an existing product
  whose stock is at least its quantity, yet the second line finds two keyboards left and
  the order is cancelled, with the three of the first line gone.
\<close>

theorem repeated_product_is_cancelled:
  "list_all (in_stock (products (db start))) [line 1 3, line 1 3] \<and>
   status_of 7 (snd (ProcessOrder calm (Some (placed [line 1 3, line 1 3])) start))
     = Some CANCELLED \<and>
   stock_of 1 (snd (ProcessOrder calm (Some (placed [line 1 3, line 1 3])) start)) = Some 2 \<and>
   events (snd (ProcessOrder calm (Some (placed [line 1 3, line 1 3])) start)) =
     [TxCommit, EmailResolved 3,
      Published ''order_failed''
        (MsgFailed \<lparr>fOrderID = 7, fUserID = 3, fUserEmail = ''ana@example.org'',
           fReason = ''Insufficient stock for Keyboard. Available: 2, Requested: 3'',
           fTimestamp = 0\<rparr>)]"
  by code_simp

text \<open>
  C5 (as the code has it). Redelivery is not idempotent. \<open>ProcessOrder\<close> does not read the
  order's status. Put the order of a placement message into any status \<open>s\<close>, CONFIRMED and
  CANCELLED included. When every item passes its stock check as the loop reaches it and
  the calls up to the commit succeed, the execution takes the requested quantities from
  every product exactly as a first delivery does.
\<close>

theorem redelivery_decrements_again:
  assumes "\<not> fails e OpBegin" and "loop_calls_succeed e"
    and "all_in_stock (products (db w)) (Items msg)"
    and "\<not> fails e OpUpdateStatus" and "\<not> fails e OpCommit"
  shows "stock_of pid
           (snd (ProcessOrder e (Some msg)
                   (w\<lparr>db := (db w)\<lparr>orders := set_status (orders (db w)) (OrderID msg) s\<rparr>\<rparr>)))
         = map_option (\<lambda>n. n - requested pid (Items msg)) (stock_of pid w)"
proof -
  let ?w0 = "w\<lparr>db := (db w)\<lparr>orders := set_status (orders (db w)) (OrderID msg) s\<rparr>\<rparr>"
  have a3: "all_in_stock (products (db ?w0)) (Items msg)" using assms(3) by simp
  have "db (snd (ProcessOrder e (Some msg) ?w0))
          = settled (db ?w0) (Items msg) (OrderID msg) CONFIRMED"
    using assms(1,2) a3 assms(4,5) by (rule success_path_db)
  then have "stock_of pid (snd (ProcessOrder e (Some msg) ?w0))
               = map_option (\<lambda>n. n - requested pid (Items msg)) (stock_of pid ?w0)"
    by (rule stock_of_settled)
  then show ?thesis by (simp add: stock_of_def)
qed

theorem redelivery_decrements_again_witness:
  "status_of 7 (start\<lparr>db := (db start)\<lparr>orders := set_status (orders (db start)) 7 CONFIRMED\<rparr>\<rparr>)
     = Some CONFIRMED \<and>
   stock_of 1 (start\<lparr>db := (db start)\<lparr>orders := set_status (orders (db start)) 7 CONFIRMED\<rparr>\<rparr>)
     = Some 5 \<and>
   stock_of 1
     (snd (ProcessOrder calm (Some (placed [line 1 2]))
             (start\<lparr>db := (db start)\<lparr>orders := set_status (orders (db start)) 7 CONFIRMED\<rparr>\<rparr>)))
     = Some 3"
proof -
  let ?msg = "placed [line 1 2]"
  have h1: "\<not> fails calm OpBegin" by (simp add: calm_def)
  have h2: "loop_calls_succeed calm" by (simp add: loop_calls_succeed_def calm_def)
  have h3: "all_in_stock (products (db start)) (Items ?msg)"
    by (simp add: in_stock_def start_def shop_def line_def placed_def)
  have h4: "\<not> fails calm OpUpdateStatus" and h5: "\<not> fails calm OpCommit"
    by (simp_all add: calm_def)
  have ids: "OrderID ?msg = 7" "Items ?msg = [line 1 2]" by (simp_all add: placed_def)
  note th = redelivery_decrements_again [OF h1 h2 h3 h4 h5, of 1 CONFIRMED, unfolded ids]
  have a: "status_of 7 (start\<lparr>db := (db start)\<lparr>orders :=
              set_status (orders (db start)) 7 CONFIRMED\<rparr>\<rparr>) = Some CONFIRMED"
    by (simp add: status_of_def set_status_def start_def shop_def)
  have b: "stock_of 1 (start\<lparr>db := (db start)\<lparr>orders :=
              set_status (orders (db start)) 7 CONFIRMED\<rparr>\<rparr>) = Some 5"
    by (simp add: stock_of_def start_def shop_def)
  have c: "map_option (\<lambda>n. n - requested 1 [line 1 2]) (stock_of 1 start) = Some 3"
    by (simp add: stock_of_def start_def shop_def requested_def line_def)
  from th a b c show ?thesis by simp
qed

text \<open>
  C5 as stated does not hold. Order 7 asks for two keyboards out of five. The first
  delivery confirms it and leaves
  three; the lookup of the email fails after the commit, the handler returns an error and
  the message is delivered again. The second delivery, for the order already CONFIRMED,
  takes two more.
\<close>

theorem redelivery_double_decrement:
  "map (status_of 7)
     (handle_all [(only_fails OpSelectEmail, Some (placed [line 1 2])),
                  (calm, Some (placed [line 1 2]))] start)
     = [Some CONFIRMED, Some CONFIRMED] \<and>
   map (stock_of 1)
     (handle_all [(only_fails OpSelectEmail, Some (placed [line 1 2])),
                  (calm, Some (placed [line 1 2]))] start)
     = [Some 3, Some 1]"
  by code_simp

subsection \<open>After the commit\<close>

text \<open>
  C6 (as the code has it). On the success path, with the CONFIRMED status committed and
  the email resolved, a failed publish of the \<open>order_confirmed\<close> event is logged and
  nothing else: \<open>ProcessOrder\<close> returns nil, so the message is acknowledged. The committed
  status and the stock decrements stay, and no outcome event exists.
\<close>

theorem publish_failure_is_only_logged:
  assumes "\<not> fails e OpBegin" and "loop_calls_succeed e"
    and "all_in_stock (products (db w)) (Items msg)"
    and "\<not> fails e OpUpdateStatus" and "\<not> fails e OpCommit"
    and "\<not> fails e OpSelectEmail" and "users (db w) (UserID msg) = Some userEmail"
    and "fails e OpPublish"
  shows "ProcessOrder e (Some msg) w =
      (None,
       w\<lparr>db := settled (db w) (Items msg) (OrderID msg) CONFIRMED,
         events := events w @ [TxCommit, EmailResolved (UserID msg)]\<rparr>) \<and>
    (\<forall>pid. stock_of pid (snd (ProcessOrder e (Some msg) w))
             = map_option (\<lambda>n. n - requested pid (Items msg)) (stock_of pid w)) \<and>
    status_of (OrderID msg) (snd (ProcessOrder e (Some msg) w))
      = map_option (\<lambda>x. CONFIRMED) (status_of (OrderID msg) w)"
proof -
  have d: "db (snd (ProcessOrder e (Some msg) w))
             = settled (db w) (Items msg) (OrderID msg) CONFIRMED"
    using assms(1-5) by (rule success_path_db)
  have "ProcessOrder e (Some msg) w =
      (None,
       w\<lparr>db := settled (db w) (Items msg) (OrderID msg) CONFIRMED,
         events := events w @ [TxCommit, EmailResolved (UserID msg)]\<rparr>)"
    using success_path [OF assms(1-5)] assms(6-8)
    by (simp add: select_email_ok Publish_def)
  then show ?thesis
    using stock_of_settled [OF d] status_of_settled [OF d] by simp
qed

theorem publish_failure_is_only_logged_witness:
  "fails (only_fails OpPublish) OpPublish \<and>
   ProcessOrder (only_fails OpPublish) (Some (placed [line 1 2])) start =
      (None,
       start\<lparr>db := settled (db start) [line 1 2] 7 CONFIRMED,
             events := [TxCommit, EmailResolved 3]\<rparr>) \<and>
   stock_of 1 (snd (ProcessOrder (only_fails OpPublish) (Some (placed [line 1 2])) start))
     = Some 3 \<and>
   status_of 7 (snd (ProcessOrder (only_fails OpPublish) (Some (placed [line 1 2])) start))
     = Some CONFIRMED"
proof -
  let ?e = "only_fails OpPublish"
  let ?msg = "placed [line 1 2]"
  have h1: "\<not> fails ?e OpBegin" by (simp add: only_fails_def)
  have h2: "loop_calls_succeed ?e" by (simp add: loop_calls_succeed_def only_fails_def)
  have h3: "all_in_stock (products (db start)) (Items ?msg)"
    by (simp add: in_stock_def start_def shop_def line_def placed_def)
  have h4: "\<not> fails ?e OpUpdateStatus" and h5: "\<not> fails ?e OpCommit"
    and h6: "\<not> fails ?e OpSelectEmail" and h8: "fails ?e OpPublish"
    by (simp_all add: only_fails_def)
  have h7: "users (db start) (UserID ?msg) = Some ''ana@example.org''"
    by (simp add: start_def shop_def placed_def)
  have ids: "OrderID ?msg = 7" "UserID ?msg = 3" "Items ?msg = [line 1 2]"
    by (simp_all add: placed_def)
  have ev: "events start = []" by (simp add: start_def)
  note th = publish_failure_is_only_logged [OF h1 h2 h3 h4 h5 h6 h7 h8, unfolded ids ev]
  have c: "map_option (\<lambda>n. n - requested 1 [line 1 2]) (stock_of 1 start) = Some 3"
    by (simp add: stock_of_def start_def shop_def requested_def line_def)
  have s: "map_option (\<lambda>x. CONFIRMED) (status_of 7 start) = Some CONFIRMED"
    by (simp add: status_of_def start_def shop_def)
  have app: "[] @ [TxCommit, EmailResolved 3] = [TxCommit, EmailResolved 3]" by simp
  from th [unfolded app] have eq: "ProcessOrder ?e (Some ?msg) start =
      (None,
       start\<lparr>db := settled (db start) [line 1 2] 7 CONFIRMED,
             events := [TxCommit, EmailResolved 3]\<rparr>)"
    and st: "\<forall>pid. stock_of pid (snd (ProcessOrder ?e (Some ?msg) start))
               = map_option (\<lambda>n. n - requested pid [line 1 2]) (stock_of pid start)"
    and os: "status_of 7 (snd (ProcessOrder ?e (Some ?msg) start))
               = map_option (\<lambda>x. CONFIRMED) (status_of 7 start)"
    by blast+
  have s1: "stock_of 1 (snd (ProcessOrder ?e (Some ?msg) start)) = Some 3"
    using st c by simp
  have s7: "status_of 7 (snd (ProcessOrder ?e (Some ?msg) start)) = Some CONFIRMED"
    using os s by simp
  from h8 eq s1 s7 show ?thesis by blast
qed

text \<open>C6 as stated does not hold: when only the publish fails the handler returns nil,
  not an error.\<close>

theorem publish_failure_returns_nil:
  "fst (ProcessOrder (only_fails OpPublish) (Some (placed [line 1 2])) start) = None \<and>
   status_of 7 (snd (ProcessOrder (only_fails OpPublish) (Some (placed [line 1 2])) start))
     = Some CONFIRMED \<and>
   events (snd (ProcessOrder (only_fails OpPublish) (Some (placed [line 1 2])) start))
     = [TxCommit, EmailResolved 3]"
  by code_simp

text \<open>
  C10. On the success path, when the lookup of the user's email after the commit fails
  (the query fails or the user has no row), \<open>ProcessOrder\<close> returns a handler error
  although the transaction that confirmed the order and took the stock is committed. No
  outcome event is published in that execution. The subscription answers the error with
  a reject-and-requeue, so the message stays at the head of the queue and is delivered
  again, to an order that is already CONFIRMED.
\<close>

theorem email_failure_after_commit:
  assumes "\<not> fails e OpBegin" and "loop_calls_succeed e"
    and "all_in_stock (products (db w)) (Items msg)"
    and "\<not> fails e OpUpdateStatus" and "\<not> fails e OpCommit"
    and "fails e OpSelectEmail \<or> users (db w) (UserID msg) = None"
  shows "ProcessOrder e (Some msg) w =
      (Some (Wrap ''failed to send email'' (if fails e OpSelectEmail then ErrIO else ErrNoRows)),
       w\<lparr>db := settled (db w) (Items msg) (OrderID msg) CONFIRMED,
         events := events w @ [TxCommit]\<rparr>) \<and>
    (\<forall>pid. stock_of pid (snd (ProcessOrder e (Some msg) w))
             = map_option (\<lambda>n. n - requested pid (Items msg)) (stock_of pid w)) \<and>
    status_of (OrderID msg) (snd (ProcessOrder e (Some msg) w))
      = map_option (\<lambda>x. CONFIRMED) (status_of (OrderID msg) w) \<and>
    fst (snd (dispatch (ProcessOrder e) (Some msg) w)) = Nack False True \<and>
    broker_settle (Some msg # q) (fst (snd (dispatch (ProcessOrder e) (Some msg) w)))
      = Some msg # q"
proof -
  have d: "db (snd (ProcessOrder e (Some msg) w))
             = settled (db w) (Items msg) (OrderID msg) CONFIRMED"
    using assms(1-5) by (rule success_path_db)
  have r: "ProcessOrder e (Some msg) w =
      (Some (Wrap ''failed to send email'' (if fails e OpSelectEmail then ErrIO else ErrNoRows)),
       w\<lparr>db := settled (db w) (Items msg) (OrderID msg) CONFIRMED,
         events := events w @ [TxCommit]\<rparr>)"
  proof -
    let ?w3 = "w\<lparr>db := settled (db w) (Items msg) (OrderID msg) CONFIRMED,
                 events := events w @ [TxCommit]\<rparr>"
    have "fails e OpSelectEmail \<or> users (db ?w3) (UserID msg) = None"
      using assms(6) by simp
    then have "select_email e ?w3 (UserID msg)
                 = (Inl (if fails e OpSelectEmail then ErrIO else ErrNoRows), ?w3)"
      by (rule select_email_fails)
    then show ?thesis using success_path [OF assms(1-5)] by simp
  qed
  have n: "fst (snd (dispatch (ProcessOrder e) (Some msg) w)) = Nack False True"
    by (simp add: dispatch_def r)
  show ?thesis
    using r n stock_of_settled [OF d] status_of_settled [OF d] by simp
qed


theorem email_failure_after_commit_witness:
  "fails (only_fails OpSelectEmail) OpSelectEmail \<and>
   fst (ProcessOrder (only_fails OpSelectEmail) (Some (placed [line 1 2])) start)
     = Some (Wrap ''failed to send email'' ErrIO) \<and>
   events (snd (ProcessOrder (only_fails OpSelectEmail) (Some (placed [line 1 2])) start))
     = [TxCommit] \<and>
   stock_of 1 (snd (ProcessOrder (only_fails OpSelectEmail) (Some (placed [line 1 2])) start))
     = Some 3 \<and>
   status_of 7 (snd (ProcessOrder (only_fails OpSelectEmail) (Some (placed [line 1 2])) start))
     = Some CONFIRMED \<and>
   fst (snd (dispatch (ProcessOrder (only_fails OpSelectEmail)) (Some (placed [line 1 2])) start))
     = Nack False True \<and>
   broker_settle [Some (placed [line 1 2])]
     (fst (snd (dispatch (ProcessOrder (only_fails OpSelectEmail))
                  (Some (placed [line 1 2])) start)))
     = [Some (placed [line 1 2])]"
proof -
  let ?e = "only_fails OpSelectEmail"
  let ?msg = "placed [line 1 2]"
  have h1: "\<not> fails ?e OpBegin" by (simp add: only_fails_def)
  have h2: "loop_calls_succeed ?e" by (simp add: loop_calls_succeed_def only_fails_def)
  have h3: "all_in_stock (products (db start)) (Items ?msg)"
    by (simp add: in_stock_def start_def shop_def line_def placed_def)
  have h4: "\<not> fails ?e OpUpdateStatus" and h5: "\<not> fails ?e OpCommit"
    and f: "fails ?e OpSelectEmail"
    by (simp_all add: only_fails_def)
  from f have h6: "fails ?e OpSelectEmail \<or> users (db start) (UserID ?msg) = None" by simp
  have ids: "OrderID ?msg = 7" "Items ?msg = [line 1 2]"
    by (simp_all add: placed_def)
  have ev: "events start @ [TxCommit] = [TxCommit]" by (simp add: start_def)
  have ite: "(if fails ?e OpSelectEmail then ErrIO else ErrNoRows) = ErrIO" using f by simp
  note th = email_failure_after_commit [OF h1 h2 h3 h4 h5 h6, of "[]", unfolded ids ev ite]
  from th have eq: "ProcessOrder ?e (Some ?msg) start =
      (Some (Wrap ''failed to send email'' ErrIO),
       start\<lparr>db := settled (db start) [line 1 2] 7 CONFIRMED, events := [TxCommit]\<rparr>)"
    and st: "\<forall>pid. stock_of pid (snd (ProcessOrder ?e (Some ?msg) start))
               = map_option (\<lambda>n. n - requested pid [line 1 2]) (stock_of pid start)"
    and os: "status_of 7 (snd (ProcessOrder ?e (Some ?msg) start))
               = map_option (\<lambda>x. CONFIRMED) (status_of 7 start)"
    and n: "fst (snd (dispatch (ProcessOrder ?e) (Some ?msg) start)) = Nack False True"
    and b: "broker_settle [Some ?msg] (fst (snd (dispatch (ProcessOrder ?e) (Some ?msg) start)))
              = [Some ?msg]"
    by blast+
  have c: "map_option (\<lambda>n. n - requested 1 [line 1 2]) (stock_of 1 start) = Some 3"
    by (simp add: stock_of_def start_def shop_def requested_def line_def)
  have s: "map_option (\<lambda>x. CONFIRMED) (status_of 7 start) = Some CONFIRMED"
    by (simp add: status_of_def start_def shop_def)
  have r: "fst (ProcessOrder ?e (Some ?msg) start) = Some (Wrap ''failed to send email'' ErrIO)"
    and e: "events (snd (ProcessOrder ?e (Some ?msg) start)) = [TxCommit]"
    by (simp_all add: eq)
  have s1: "stock_of 1 (snd (ProcessOrder ?e (Some ?msg) start)) = Some 3"
    using st c by simp
  have s7: "status_of 7 (snd (ProcessOrder ?e (Some ?msg) start)) = Some CONFIRMED"
    using os s by simp
  from f r e s1 s7 n b show ?thesis by blast
qed

subsection \<open>Database errors\<close>

lemma items_loop_error_keeps_database:
  "items_loop e msg i items t w = Inr (Some err, w') \<Longrightarrow> db w' = db w"
proof (induction items arbitrary: i t)
  case Nil
  then show ?case by simp
next
  case (Cons item rest)
  then show ?case
    by (auto split: sum.splits prod.splits if_splits)
qed

text \<open>
  An error returned before the commit has gone through leaves the committed database as it
  was: the open transaction is rolled back by the deferred function. The one error that
  comes after the commit is the failed lookup of the email.
\<close>

lemma handler_error_before_commit_keeps_database:
  assumes "ProcessOrder e body w = (Some err, w')"
    and "\<forall>cause. err \<noteq> Wrap ''failed to send email'' cause"
  shows "db w' = db w"
proof (cases body)
  case None
  then show ?thesis using assms by (simp add: ProcessOrder_def)
next
  case (Some msg)
  show ?thesis
  proof (cases "Begin e w")
    case (Inl x)
    then show ?thesis using assms Some by (simp add: ProcessOrder_def)
  next
    case (Inr t)
    show ?thesis
    proof (cases "items_loop e msg 0 (Items msg) t w")
      case early: (Inr r)
      then show ?thesis
        using assms Some Inr items_loop_error_keeps_database [of e msg 0 "Items msg" t w err w']
        by (simp add: ProcessOrder_def)
    next
      case (Inl t1)
      then show ?thesis
        using assms Some Inr
        by (auto simp: ProcessOrder_def Commit_def select_email_def
            split: sum.splits prod.splits option.splits if_splits)
    qed
  qed
qed

text \<open>
  C4. Every unexpected database error is to come back as a handler error, with the
  transaction rolled back and the message delivered again. The loop and the success
  branch do so, as the lemma above shows; the failure branch does not. Order 7 asks for two keyboards and a hundred mice; there are ten mice, so the order is
  to be cancelled. When the commit of the cancellation fails, or the status update before
  it, \<open>failOrder\<close> logs the error and returns, and \<open>ProcessOrder\<close> returns nil: the message
  is acknowledged, nothing is committed, and the order stays PENDING with no outcome event.
\<close>

theorem failed_cancellation_is_swallowed:
  "fst (ProcessOrder (only_fails OpCommit) (Some (placed [line 1 2, line 2 100])) start) = None \<and>
   fst (snd (dispatch (ProcessOrder (only_fails OpCommit))
               (Some (placed [line 1 2, line 2 100])) start)) = Ack False \<and>
   status_of 7 (snd (ProcessOrder (only_fails OpCommit)
                       (Some (placed [line 1 2, line 2 100])) start)) = Some PENDING \<and>
   stock_of 1 (snd (ProcessOrder (only_fails OpCommit)
                      (Some (placed [line 1 2, line 2 100])) start)) = Some 5 \<and>
   events (snd (ProcessOrder (only_fails OpCommit)
                  (Some (placed [line 1 2, line 2 100])) start)) = [] \<and>
   fst (ProcessOrder (only_fails OpUpdateStatus) (Some (placed [line 1 2, line 2 100])) start)
     = None \<and>
   status_of 7 (snd (ProcessOrder (only_fails OpUpdateStatus)
                       (Some (placed [line 1 2, line 2 100])) start)) = Some PENDING \<and>
   events (snd (ProcessOrder (only_fails OpUpdateStatus)
                  (Some (placed [line 1 2, line 2 100])) start)) = [TxRollback]"
  by code_simp

subsection \<open>What an execution can commit\<close>

lemma failOrder_db:
  assumes "\<not> closed t"
  shows "db (snd (failOrder e t oid uid reason w)) = db w \<or>
         db (snd (failOrder e t oid uid reason w))
           = (view t)\<lparr>orders := set_status (orders (view t)) oid CANCELLED\<rparr>"
proof (cases "fails e OpUpdateStatus \<or> fails e OpCommit")
  case True
  then show ?thesis
    using assms
    by (auto simp: failOrder_def update_status_def Commit_def split: option.splits)
next
  case False
  then show ?thesis
    using assms
    by (simp add: failOrder_ok case_prod_unfold split: sum.splits)
qed


lemma failOrder_closed_db:
  "db (snd (failOrder e t oid uid reason w)) = db w \<or>
   db (snd (failOrder e t oid uid reason w))
     = (view t)\<lparr>orders := set_status (orders (view t)) oid CANCELLED\<rparr>"
proof (cases "closed t")
  case True
  then show ?thesis
    by (auto simp: failOrder_def update_status_def Commit_def split: option.splits)
next
  case False
  then show ?thesis by (rule failOrder_db)
qed

lemma items_loop_db:
  "case items_loop e msg i items t w of
     Inl t' \<Rightarrow>
       all_in_stock (products (view t)) items \<and>
       t' = with_products t (foldl decrement (products (view t)) items)
   | Inr (r, w') \<Rightarrow>
       db w' = db w \<or>
       (\<exists>pre bad rest.
          items = pre @ bad # rest \<and>
          all_in_stock (products (view t)) pre \<and>
          \<not> in_stock (foldl decrement (products (view t)) pre) bad \<and>
          db w' = (view t)\<lparr>products := foldl decrement (products (view t)) pre,
                             orders := set_status (orders (view t)) (OrderID msg) CANCELLED\<rparr>)"
proof (induction items arbitrary: i t)
  case Nil
  then show ?case by simp
next
  case (Cons item rest)
  have stop: "db (deferred (fst (failOrder e t (OrderID msg) uid reason w))
                     (snd (failOrder e t (OrderID msg) uid reason w))) = db w \<or>
       (\<exists>pre bad rest'.
          item # rest = pre @ bad # rest' \<and>
          all_in_stock (products (view t)) pre \<and>
          \<not> in_stock (foldl decrement (products (view t)) pre) bad \<and>
          db (deferred (fst (failOrder e t (OrderID msg) uid reason w))
                (snd (failOrder e t (OrderID msg) uid reason w)))
            = (view t)\<lparr>products := foldl decrement (products (view t)) pre,
                        orders := set_status (orders (view t)) (OrderID msg) CANCELLED\<rparr>)"
    if bad: "\<not> in_stock (products (view t)) item" for uid reason
  proof -
    from failOrder_closed_db [of e t "OrderID msg" uid reason w]
    show ?thesis
    proof
      assume "db (snd (failOrder e t (OrderID msg) uid reason w)) = db w"
      then show ?thesis by simp
    next
      assume c: "db (snd (failOrder e t (OrderID msg) uid reason w))
                   = (view t)\<lparr>orders := set_status (orders (view t)) (OrderID msg) CANCELLED\<rparr>"
      have "item # rest = [] @ item # rest \<and>
          all_in_stock (products (view t)) [] \<and>
          \<not> in_stock (foldl decrement (products (view t)) []) item \<and>
          db (deferred (fst (failOrder e t (OrderID msg) uid reason w))
                (snd (failOrder e t (OrderID msg) uid reason w)))
            = (view t)\<lparr>products := foldl decrement (products (view t)) [],
                        orders := set_status (orders (view t)) (OrderID msg) CANCELLED\<rparr>"
        using bad c by simp
      then show ?thesis by blast
    qed
  qed
  show ?case
  proof (cases "select_product_for_update e i t (ProductID item)")
    case (Inl err)
    show ?thesis
    proof (cases "err = ErrNoRows")
      case True
      with Inl have "products (view t) (ProductID item) = None"
        by (auto simp: select_product_for_update_def split: if_splits option.splits)
      then have "\<not> in_stock (products (view t)) item" by (simp add: in_stock_def)
      from stop [OF this] show ?thesis using Inl True by (simp add: case_prod_unfold)
    next
      case False
      then show ?thesis using Inl by simp
    qed
  next
    case (Inr row)
    obtain productName currentStock where row: "row = (productName, currentStock)"
      by (cases row) auto
    from Inr row obtain p where p: "products (view t) (ProductID item) = Some p"
      and cur: "currentStock = stock p"
      by (auto simp: select_product_for_update_def split: if_splits option.splits)
    show ?thesis
    proof (cases "currentStock < Quantity item")
      case True
      then have "\<not> in_stock (products (view t)) item" using p cur by (simp add: in_stock_def)
      from stop [OF this] show ?thesis using Inr row True by (simp add: case_prod_unfold)
    next
      case False
      then have ok: "in_stock (products (view t)) item" using p cur by (simp add: in_stock_def)
      show ?thesis
      proof (cases "fails e (OpUpdateStock i)")
        case True
        then show ?thesis using Inr row False by (simp add: update_stock_def)
      next
        case nofail: False
        let ?t' = "with_products t (decrement (products (view t)) item)"
        have upd: "update_stock e i t (Quantity item) (ProductID item) = Inr (1, ?t')"
          using nofail p by (simp add: update_stock_def with_products_def decrement_def)
        have step: "items_loop e msg i (item # rest) t w = items_loop e msg (Suc i) rest ?t' w"
          using Inr row False upd by simp
        have v: "view ?t' = (view t)\<lparr>products := decrement (products (view t)) item\<rparr>"
          by (simp add: with_products_def)
        show ?thesis
        proof (cases "items_loop e msg (Suc i) rest ?t' w")
          case (Inl t'')
          with Cons.IH [of ?t' "Suc i"] show ?thesis
            using step ok by simp
        next
          case early: (Inr res)
          obtain r w' where res: "res = (r, w')" by (cases res) auto
          from Cons.IH [of ?t' "Suc i"] early res
          have "db w' = db w \<or>
            (\<exists>pre bad rest'.
               rest = pre @ bad # rest' \<and>
               all_in_stock (decrement (products (view t)) item) pre \<and>
               \<not> in_stock (foldl decrement (decrement (products (view t)) item) pre) bad \<and>
               db w' = (view t)\<lparr>products :=
                                   foldl decrement (decrement (products (view t)) item) pre,
                                 orders := set_status (orders (view t)) (OrderID msg)
                                             CANCELLED\<rparr>)"
            by (simp add: v)
          then show ?thesis
          proof
            assume "db w' = db w"
            then show ?thesis using step early res by simp
          next
            assume "\<exists>pre bad rest'.
               rest = pre @ bad # rest' \<and>
               all_in_stock (decrement (products (view t)) item) pre \<and>
               \<not> in_stock (foldl decrement (decrement (products (view t)) item) pre) bad \<and>
               db w' = (view t)\<lparr>products :=
                                   foldl decrement (decrement (products (view t)) item) pre,
                                 orders := set_status (orders (view t)) (OrderID msg)
                                             CANCELLED\<rparr>"
            then obtain pre bad rest' where
              "rest = pre @ bad # rest'"
              "all_in_stock (decrement (products (view t)) item) pre"
              "\<not> in_stock (foldl decrement (decrement (products (view t)) item) pre) bad"
              "db w' = (view t)\<lparr>products :=
                                   foldl decrement (decrement (products (view t)) item) pre,
                                 orders := set_status (orders (view t)) (OrderID msg)
                                             CANCELLED\<rparr>"
              by blast
            then have "item # rest = (item # pre) @ bad # rest' \<and>
               all_in_stock (products (view t)) (item # pre) \<and>
               \<not> in_stock (foldl decrement (products (view t)) (item # pre)) bad \<and>
               db w' = (view t)\<lparr>products := foldl decrement (products (view t)) (item # pre),
                                 orders := set_status (orders (view t)) (OrderID msg)
                                             CANCELLED\<rparr>"
              using ok by simp
            then have "\<exists>pre bad rest'. item # rest = pre @ bad # rest' \<and>
               all_in_stock (products (view t)) pre \<and>
               \<not> in_stock (foldl decrement (products (view t)) pre) bad \<and>
               db w' = (view t)\<lparr>products := foldl decrement (products (view t)) pre,
                                 orders := set_status (orders (view t)) (OrderID msg)
                                             CANCELLED\<rparr>"
              by blast
            then show ?thesis using step early res by simp
          qed
        qed
      qed
    qed
  qed
qed

lemma ProcessOrder_db_cases:
  "db (snd (ProcessOrder e (Some msg) w)) = db w \<or>
   (\<exists>pre bad rest.
      Items msg = pre @ bad # rest \<and>
      all_in_stock (products (db w)) pre \<and>
      \<not> in_stock (foldl decrement (products (db w)) pre) bad \<and>
      db (snd (ProcessOrder e (Some msg) w)) = settled (db w) pre (OrderID msg) CANCELLED) \<or>
   (all_in_stock (products (db w)) (Items msg) \<and>
    db (snd (ProcessOrder e (Some msg) w)) = settled (db w) (Items msg) (OrderID msg) CONFIRMED)"
proof (cases "fails e OpBegin")
  case True
  then show ?thesis by (simp add: ProcessOrder_def Begin_def)
next
  case False
  let ?t = "\<lparr>view = db w, closed = False\<rparr>"
  have b: "Begin e w = Inr ?t" using False by (simp add: Begin_def)
  note loop = items_loop_db [where e = e and msg = msg and i = 0 and items = "Items msg"
      and t = ?t and w = w]
  show ?thesis
  proof (cases "items_loop e msg 0 (Items msg) ?t w")
    case early: (Inr res)
    obtain r w' where res: "res = (r, w')" by (cases res) auto
    have po: "ProcessOrder e (Some msg) w = (r, w')"
      using b early res by (simp add: ProcessOrder_def)
    from loop early res show ?thesis
      unfolding po by (auto simp: settled_def)
  next
    case (Inl t1)
    with loop have pass: "all_in_stock (products (db w)) (Items msg)"
      and t1: "t1 = with_products ?t (foldl decrement (products (db w)) (Items msg))"
      by simp_all
    show ?thesis
    proof (cases "fails e OpUpdateStatus \<or> fails e OpCommit")
      case True
      then have "db (snd (ProcessOrder e (Some msg) w)) = db w"
        using b Inl t1
        by (auto simp: ProcessOrder_def update_status_def Commit_def with_products_def
            split: option.splits)
      then show ?thesis by simp
    next
      case ok: False
      have "db (snd (ProcessOrder e (Some msg) w))
              = settled (db w) (Items msg) (OrderID msg) CONFIRMED"
        using b Inl t1 ok
        by (simp add: ProcessOrder_def update_status_ok Commit_ok with_products_def settled_def
            case_prod_unfold split: sum.splits)
      then show ?thesis using pass by simp
    qed
  qed
qed

subsection \<open>A failed stock check stays failed\<close>

lemma all_in_stock_append:
  "all_in_stock ps (xs @ ys) = (all_in_stock ps xs \<and> all_in_stock (foldl decrement ps xs) ys)"
  by (induction xs arbitrary: ps) auto

lemma requested_nonneg:
  "list_all (\<lambda>item. 0 \<le> Quantity item) items \<Longrightarrow> 0 \<le> requested pid items"
  by (induction items) (auto simp: requested_Cons requested_def)

lemma foldl_decrement_stock_le:
  assumes "list_all (\<lambda>item. 0 \<le> Quantity item) items"
  shows "stock_le (foldl decrement ps items) ps"
  unfolding stock_le_def
proof
  fix pid
  show "rel_option (\<lambda>p' p. stock p' \<le> stock p) (foldl decrement ps items pid) (ps pid)"
    using requested_nonneg [OF assms, of pid]
    by (cases "ps pid") (simp_all add: foldl_decrement_apply)
qed

lemma stock_le_decrement:
  assumes "stock_le ps' ps"
  shows "stock_le (decrement ps' item) (decrement ps item)"
  unfolding stock_le_def
proof
  fix pid
  from assms have "rel_option (\<lambda>p' p. stock p' \<le> stock p) (ps' pid) (ps pid)"
    by (simp add: stock_le_def)
  then show "rel_option (\<lambda>p' p. stock p' \<le> stock p)
               (decrement ps' item pid) (decrement ps item pid)"
    by (cases "ps' pid"; cases "ps pid") (auto simp: decrement_apply)
qed

lemma all_in_stock_mono:
  "stock_le ps' ps \<Longrightarrow> all_in_stock ps' items \<Longrightarrow> all_in_stock ps items"
proof (induction items arbitrary: ps' ps)
  case Nil
  then show ?case by simp
next
  case (Cons item rest)
  from Cons.prems(1) have r: "rel_option (\<lambda>p' p. stock p' \<le> stock p)
                                (ps' (ProductID item)) (ps (ProductID item))"
    by (simp add: stock_le_def)
  from Cons.prems(2) have a: "in_stock ps' item" and b: "all_in_stock (decrement ps' item) rest"
    by simp_all
  from a r have "in_stock ps item"
    by (cases "ps' (ProductID item)"; cases "ps (ProductID item)") (auto simp: in_stock_def)
  moreover have "all_in_stock (decrement ps item) rest"
    using Cons.IH [OF stock_le_decrement [OF Cons.prems(1)] b] .
  ultimately show ?case by simp
qed

lemma products_settled [simp]: "products (settled d items oid s) = foldl decrement (products d) items"
  by (simp add: settled_def)

lemma status_of_settled_other:
  "db w' = settled (db w) items oid' s \<Longrightarrow> oid \<noteq> oid' \<Longrightarrow> status_of oid w' = status_of oid w"
  by (simp add: status_of_def settled_def set_status_def split: option.splits)

text \<open>
  One execution, for an order \<open>oid\<close> whose placement message carries \<open>items\<close>: if a
  CANCELLED status of the order goes with a failing stock check of its items before the
  execution, it does so after it.
\<close>

lemma cancelled_check_step:
  assumes ok: "delivery_ok oid items (e, body)"
    and K: "status_of oid w = Some CANCELLED \<longrightarrow> \<not> all_in_stock (products (db w)) items"
  shows "status_of oid (snd (ProcessOrder e body w)) = Some CANCELLED \<longrightarrow>
         \<not> all_in_stock (products (db (snd (ProcessOrder e body w)))) items"
proof (cases body)
  case None
  then show ?thesis using K by (simp add: ProcessOrder_def)
next
  case (Some m)
  let ?w' = "snd (ProcessOrder e (Some m) w)"
  from ok Some have nn: "list_all (\<lambda>item. 0 \<le> Quantity item) (Items m)"
    and same: "OrderID m = oid \<Longrightarrow> Items m = items"
    by (auto simp: delivery_ok_def)
  from ProcessOrder_db_cases [of e m w]
  consider (unchanged) "db ?w' = db w"
    | (cancel) pre bad rest where "Items m = pre @ bad # rest"
        "all_in_stock (products (db w)) pre"
        "\<not> in_stock (foldl decrement (products (db w)) pre) bad"
        "db ?w' = settled (db w) pre (OrderID m) CANCELLED"
    | (confirm) "all_in_stock (products (db w)) (Items m)"
        "db ?w' = settled (db w) (Items m) (OrderID m) CONFIRMED"
    by blast
  then have "status_of oid ?w' = Some CANCELLED \<longrightarrow>
             \<not> all_in_stock (products (db ?w')) items"
  proof cases
    case unchanged
    then show ?thesis using K by (simp add: status_of_def)
  next
    case cancel
    from nn cancel(1) have "list_all (\<lambda>item. 0 \<le> Quantity item) pre" by simp
    then have le: "stock_le (products (db ?w')) (products (db w))"
      using cancel(4) by (simp add: foldl_decrement_stock_le)
    show ?thesis
    proof (cases "OrderID m = oid")
      case True
      have "\<not> all_in_stock (products (db w)) (pre @ bad # rest)"
        using cancel(3) by (simp add: all_in_stock_append)
      then have "\<not> all_in_stock (products (db w)) items"
        using same [OF True] cancel(1) by simp
      then show ?thesis using all_in_stock_mono [OF le] by blast
    next
      case False
      then have "status_of oid ?w' = status_of oid w"
        using status_of_settled_other [OF cancel(4)] by simp
      then show ?thesis using K all_in_stock_mono [OF le] by auto
    qed
  next
    case confirm
    from nn have le: "stock_le (products (db ?w')) (products (db w))"
      using confirm(2) by (simp add: foldl_decrement_stock_le)
    show ?thesis
    proof (cases "OrderID m = oid")
      case True
      then have "status_of oid ?w' = map_option (\<lambda>x. CONFIRMED) (status_of oid w)"
        using status_of_settled [OF confirm(2)] by simp
      then show ?thesis by (cases "status_of oid w") simp_all
    next
      case False
      then have "status_of oid ?w' = status_of oid w"
        using status_of_settled_other [OF confirm(2)] by simp
      then show ?thesis using K all_in_stock_mono [OF le] by auto
    qed
  qed
  then show ?thesis using Some by simp
qed

lemma cancelled_stays_step:
  assumes ok: "delivery_ok oid items (e, body)"
    and c: "status_of oid w = Some CANCELLED"
    and f: "\<not> all_in_stock (products (db w)) items"
  shows "status_of oid (snd (ProcessOrder e body w)) = Some CANCELLED \<and>
         \<not> all_in_stock (products (db (snd (ProcessOrder e body w)))) items"
proof (cases body)
  case None
  then show ?thesis using c f by (simp add: ProcessOrder_def)
next
  case (Some m)
  let ?w' = "snd (ProcessOrder e (Some m) w)"
  from ok Some have nn: "list_all (\<lambda>item. 0 \<le> Quantity item) (Items m)"
    and same: "OrderID m = oid \<Longrightarrow> Items m = items"
    by (auto simp: delivery_ok_def)
  from ProcessOrder_db_cases [of e m w]
  consider (unchanged) "db ?w' = db w"
    | (cancel) pre bad rest where "Items m = pre @ bad # rest"
        "all_in_stock (products (db w)) pre"
        "\<not> in_stock (foldl decrement (products (db w)) pre) bad"
        "db ?w' = settled (db w) pre (OrderID m) CANCELLED"
    | (confirm) "all_in_stock (products (db w)) (Items m)"
        "db ?w' = settled (db w) (Items m) (OrderID m) CONFIRMED"
    by blast
  then have "status_of oid ?w' = Some CANCELLED \<and> \<not> all_in_stock (products (db ?w')) items"
  proof cases
    case unchanged
    then show ?thesis using c f by (simp add: status_of_def)
  next
    case cancel
    from nn cancel(1) have "list_all (\<lambda>item. 0 \<le> Quantity item) pre" by simp
    then have le: "stock_le (products (db ?w')) (products (db w))"
      using cancel(4) by (simp add: foldl_decrement_stock_le)
    have "status_of oid ?w' = Some CANCELLED"
    proof (cases "OrderID m = oid")
      case True
      then show ?thesis using status_of_settled [OF cancel(4)] c by simp
    next
      case False
      then show ?thesis using status_of_settled_other [OF cancel(4)] c by simp
    qed
    then show ?thesis using f all_in_stock_mono [OF le] by blast
  next
    case confirm
    from nn have le: "stock_le (products (db ?w')) (products (db w))"
      using confirm(2) by (simp add: foldl_decrement_stock_le)
    have other: "OrderID m \<noteq> oid" using same confirm(1) f by auto
    then have "status_of oid ?w' = Some CANCELLED"
      using status_of_settled_other [OF confirm(2)] c by simp
    then show ?thesis using f all_in_stock_mono [OF le] by blast
  qed
  then show ?thesis using Some by simp
qed

lemma cancelled_check_last:
  "list_all (delivery_ok oid items) ds \<Longrightarrow>
   status_of oid w = Some CANCELLED \<longrightarrow> \<not> all_in_stock (products (db w)) items \<Longrightarrow>
   status_of oid (last (w # handle_all ds w)) = Some CANCELLED \<longrightarrow>
     \<not> all_in_stock (products (db (last (w # handle_all ds w)))) items"
proof (induction ds arbitrary: w)
  case Nil
  then show ?case by simp
next
  case (Cons d rest)
  obtain e body where d: "d = (e, body)" by (cases d) auto
  let ?w1 = "snd (ProcessOrder e body w)"
  have l: "last (w # handle_all (d # rest) w) = last (?w1 # handle_all rest ?w1)"
    by (simp add: d case_prod_unfold)
  from Cons.prems(1) d have ok: "delivery_ok oid items (e, body)"
    and rest: "list_all (delivery_ok oid items) rest" by simp_all
  show ?case
    unfolding l
    using Cons.IH [OF rest cancelled_check_step [OF ok Cons.prems(2)]] .
qed

lemma cancelled_stays_all:
  "list_all (delivery_ok oid items) ds \<Longrightarrow>
   status_of oid w = Some CANCELLED \<Longrightarrow> \<not> all_in_stock (products (db w)) items \<Longrightarrow>
   w' \<in> set (handle_all ds w) \<Longrightarrow> status_of oid w' = Some CANCELLED"
proof (induction ds arbitrary: w)
  case Nil
  then show ?case by simp
next
  case (Cons d rest)
  obtain e body where d: "d = (e, body)" by (cases d) auto
  let ?w1 = "snd (ProcessOrder e body w)"
  from Cons.prems(1) d have ok: "delivery_ok oid items (e, body)"
    and rest: "list_all (delivery_ok oid items) rest" by simp_all
  note step = cancelled_stays_step [OF ok Cons.prems(2,3)]
  from Cons.prems(4) d have "w' = ?w1 \<or> w' \<in> set (handle_all rest ?w1)"
    by (auto simp: case_prod_unfold)
  then show ?case
    using step Cons.IH [OF rest, of ?w1] by blast
qed

subsection \<open>Order status\<close>

text \<open>
  C1 (as the code has it). \<open>ProcessOrder\<close> and \<open>failOrder\<close> write the status without
  reading it. Take the world \<open>w1\<close> reached by any deliveries from \<open>w\<close>, and any deliveries
  after it, whatever fails during each execution. An order that is CONFIRMED or CANCELLED
  in \<open>w1\<close> is CONFIRMED or CANCELLED after every later execution: it never goes back to
  PENDING. CANCELLED is final: when the quantities of the placement messages are not
  negative and the messages of the order all carry the same items, as \<open>CreateOrder\<close>
  emits them, an order that was not CANCELLED in \<open>w\<close> and is CANCELLED in \<open>w1\<close> is
  CANCELLED after every later execution, redeliveries of its message included. CONFIRMED
  is not final: a redelivery can still turn it into CANCELLED.
\<close>

theorem terminal_stays_terminal:
  assumes "w1 = last (w # handle_all earlier w)"
    and "w' \<in> set (handle_all later w1)"
  shows "(\<forall>s. status_of oid w1 = Some s \<and> terminal s \<longrightarrow>
            (\<exists>s'. status_of oid w' = Some s' \<and> terminal s')) \<and>
         (list_all (delivery_ok oid items) (earlier @ later) \<and>
          status_of oid w \<noteq> Some CANCELLED \<and> status_of oid w1 = Some CANCELLED \<longrightarrow>
            status_of oid w' = Some CANCELLED)"
proof (intro conjI allI impI)
  fix s assume a: "status_of oid w1 = Some s \<and> terminal s"
  let ?Q = "\<lambda>d. \<exists>r. orders d oid = Some r \<and> terminal (status r)"
  have "?Q (db w1)" using a by (auto simp: status_of_def)
  moreover have "?Q (d\<lparr>products := (products d)(pid \<mapsto> p\<lparr>stock := stock p - q\<rparr>)\<rparr>)"
    if "?Q d" for d pid p q
    using that by simp
  moreover have "?Q (d\<lparr>orders := (orders d)(oid' \<mapsto> r\<lparr>status := s'\<rparr>)\<rparr>)"
    if "?Q d" "orders d oid' = Some r" "terminal s'" for d oid' r s'
    using that by auto
  ultimately have "?Q (db w')"
    using handle_all_keeps [where Q = ?Q and w = w1 and w' = w' and deliveries = later]
      assms(2) by blast
  then show "\<exists>s'. status_of oid w' = Some s' \<and> terminal s'" by (auto simp: status_of_def)
next
  assume b: "list_all (delivery_ok oid items) (earlier @ later) \<and>
          status_of oid w \<noteq> Some CANCELLED \<and> status_of oid w1 = Some CANCELLED"
  then have e: "list_all (delivery_ok oid items) earlier"
    and l: "list_all (delivery_ok oid items) later" by simp_all
  from b have "status_of oid w = Some CANCELLED \<longrightarrow> \<not> all_in_stock (products (db w)) items"
    by simp
  from cancelled_check_last [OF e this] b assms(1)
  have "\<not> all_in_stock (products (db w1)) items" by simp
  with b l assms(2) show "status_of oid w' = Some CANCELLED"
    using cancelled_stays_all [of oid items later w1 w'] by blast
qed

theorem terminal_stays_terminal_witness:
  "status_of 7 start = Some PENDING \<and>
   status_of 7 (last (start # handle_all [(calm, Some (placed [line 1 2, line 2 100]))] start))
     = Some CANCELLED \<and>
   terminal CANCELLED \<and>
   list_all (delivery_ok 7 [line 1 2, line 2 100])
     ([(calm, Some (placed [line 1 2, line 2 100]))]
      @ [(calm, Some (placed [line 1 2, line 2 100])), (calm, None),
         (calm, Some (placed [line 1 2, line 2 100]))]) \<and>
   status_of 7
     (last (handle_all [(calm, Some (placed [line 1 2, line 2 100])), (calm, None),
                        (calm, Some (placed [line 1 2, line 2 100]))]
              (last (start # handle_all [(calm, Some (placed [line 1 2, line 2 100]))] start))))
     = Some CANCELLED \<and>
   (\<exists>s'. status_of 7
           (last (handle_all [(calm, Some (placed [line 1 2, line 2 100])), (calm, None),
                              (calm, Some (placed [line 1 2, line 2 100]))]
                    (last (start # handle_all [(calm, Some (placed [line 1 2, line 2 100]))]
                                     start)))) = Some s'
         \<and> terminal s')"
proof -
  let ?m = "Some (placed [line 1 2, line 2 100])"
  let ?earlier = "[(calm, ?m)]"
  let ?later = "[(calm, ?m), (calm, None), (calm, ?m)]"
  define w1 where "w1 = last (start # handle_all ?earlier start)"
  have h0: "status_of 7 start = Some PENDING" by (simp add: status_of_def start_def shop_def)
  have h1: "status_of 7 w1 = Some CANCELLED" unfolding w1_def by code_simp
  have h2: "terminal CANCELLED" by (simp add: terminal_def)
  have h3: "list_all (delivery_ok 7 [line 1 2, line 2 100]) (?earlier @ ?later)"
    by (simp add: delivery_ok_def placed_def line_def)
  have "handle_all ?later w1 \<noteq> []" by (simp add: case_prod_unfold)
  then have h4: "last (handle_all ?later w1) \<in> set (handle_all ?later w1)"
    by (rule last_in_set)
  note th = terminal_stays_terminal [OF w1_def h4, of 7 "[line 1 2, line 2 100]"]
  from th h1 h2 have a: "\<exists>s'. status_of 7 (last (handle_all ?later w1)) = Some s' \<and> terminal s'"
    by blast
  from h0 have h0': "status_of 7 start \<noteq> Some CANCELLED" by simp
  from th h3 h0' h1 have b: "status_of 7 (last (handle_all ?later w1)) = Some CANCELLED"
    by blast
  from h0 h1 h2 h3 a b show ?thesis unfolding w1_def by blast
qed

text \<open>
  C1 as stated does not hold. Order 7 asks for three keyboards out of five. The first delivery
  confirms it but the lookup of the email fails after the commit, so the handler returns
  an error and the broker delivers the message again. The second delivery finds two
  keyboards left and cancels the confirmed order.
\<close>

theorem redelivery_flips_status:
  "map (status_of 7)
     (handle_all [(only_fails OpSelectEmail, Some (placed [line 1 3])),
                  (calm, Some (placed [line 1 3]))] start)
   = [Some CONFIRMED, Some CANCELLED]"
  by code_simp

section \<open>Properties of the subscription\<close>

lemma dispatch_reply:
  "dispatch handler m w =
     (fst (handler m w),
      (case fst (handler m w) of None \<Rightarrow> Ack False | Some err \<Rightarrow> Nack False True),
      snd (handler m w))"
  by (cases "handler m w") (auto simp: dispatch_def split: option.splits)

lemma consume_loop_replies:
  "(m, res, reply) \<in> set (fst (consume_loop n handler q w)) \<Longrightarrow>
   reply = (case res of None \<Rightarrow> Ack False | Some err \<Rightarrow> Nack False True)"
proof (induction n arbitrary: q w)
  case 0
  then show ?case by simp
next
  case (Suc n)
  show ?case
  proof (cases q)
    case Nil
    with Suc.prems show ?thesis by simp
  next
    case (Cons m' q')
    let ?r = "case fst (handler m' w) of None \<Rightarrow> Ack False | Some err \<Rightarrow> Nack False True"
    from Suc.prems Cons
    have "(m, res, reply) = (m', fst (handler m' w), ?r) \<or>
          (m, res, reply) \<in> set (fst (consume_loop n handler (broker_settle (m' # q') ?r)
                                        (snd (handler m' w))))"
      by (auto simp: dispatch_reply split: prod.splits)
    then show ?thesis
    proof
      assume "(m, res, reply) = (m', fst (handler m' w), ?r)"
      then show ?thesis by auto
    next
      assume "(m, res, reply) \<in> set (fst (consume_loop n handler (broker_settle (m' # q') ?r)
                                        (snd (handler m' w))))"
      then show ?thesis by (rule Suc.IH)
    qed
  qed
qed

lemma consume_loop_ack:
  assumes "fst (handler m w) = None"
  shows "consume_loop (Suc n) handler (m # q) w =
     (case consume_loop n handler q (snd (handler m w)) of
        (served, q', w') \<Rightarrow> ((m, None, Ack False) # served, q', w'))"
  using assms by (simp add: dispatch_reply)

lemma consume_loop_nack:
  assumes "fst (handler m w) = Some err"
  shows "consume_loop (Suc n) handler (m # q) w =
     (case consume_loop n handler (m # q) (snd (handler m w)) of
        (served, q', w') \<Rightarrow> ((m, Some err, Nack False True) # served, q', w'))"
  using assms by (simp add: dispatch_reply)

lemma consume_loop_poison:
  assumes "\<And>w. fst (handler m w) \<noteq> None"
  shows "map fst (fst (consume_loop n handler (m # q) w)) = replicate n m \<and>
         fst (snd (consume_loop n handler (m # q) w)) = m # q"
proof (induction n arbitrary: w)
  case 0
  then show ?case by simp
next
  case (Suc n)
  from assms [of w] obtain err where err: "fst (handler m w) = Some err" by auto
  show ?case
    using Suc.IH [of "snd (handler m w)"]
    by (simp add: consume_loop_nack [of handler m w err n q, OF err] case_prod_unfold
        del: consume_loop.simps)
qed

text \<open>
  C8. Acknowledgement policy of the subscription. For every message the loop started by
  \<open>Consume\<close> receives, the reply is decided by what the handler returned: nil is answered
  with \<open>Ack(false)\<close>, an error with \<open>Nack(false, true)\<close>. An acknowledged message leaves
  the queue and the loop goes on with the next one; a rejected message stays at the head
  of the queue and is the next delivery. Nothing counts the deliveries: a message on which
  the handler fails every time is delivered \<open>n\<close> times in \<open>n\<close> rounds, for every \<open>n\<close>, and
  is still in the queue afterwards.
\<close>

theorem subscription_acknowledgement_policy:
  "(\<forall>(body, res, reply) \<in> set (fst (snd (Consume e n handler q w))).
      reply = (case res of None \<Rightarrow> Ack False | Some err \<Rightarrow> Nack False True)) \<and>
   (\<not> fails e OpQos \<and> \<not> fails e OpConsume \<longrightarrow>
      Consume e n handler q w = (None, consume_loop n handler q w)) \<and>
   (fst (handler m w) = None \<longrightarrow>
      consume_loop (Suc n) handler (m # q) w =
        (case consume_loop n handler q (snd (handler m w)) of
           (served, q', w') \<Rightarrow> ((m, None, Ack False) # served, q', w'))) \<and>
   (\<forall>err. fst (handler m w) = Some err \<longrightarrow>
      consume_loop (Suc n) handler (m # q) w =
        (case consume_loop n handler (m # q) (snd (handler m w)) of
           (served, q', w') \<Rightarrow> ((m, Some err, Nack False True) # served, q', w'))) \<and>
   ((\<forall>w0. fst (handler m w0) \<noteq> None) \<longrightarrow>
      map fst (fst (consume_loop n handler (m # q) w)) = replicate n m \<and>
      fst (snd (consume_loop n handler (m # q) w)) = m # q)"
proof (intro conjI impI allI)
  show "\<forall>(body, res, reply) \<in> set (fst (snd (Consume e n handler q w))).
      reply = (case res of None \<Rightarrow> Ack False | Some err \<Rightarrow> Nack False True)"
    using consume_loop_replies [of _ _ _ n handler q w]
    by (auto simp: Consume_def)
next
  assume "\<not> fails e OpQos \<and> \<not> fails e OpConsume"
  then show "Consume e n handler q w = (None, consume_loop n handler q w)"
    by (simp add: Consume_def)
next
  assume "fst (handler m w) = None"
  then show "consume_loop (Suc n) handler (m # q) w =
        (case consume_loop n handler q (snd (handler m w)) of
           (served, q', w') \<Rightarrow> ((m, None, Ack False) # served, q', w'))"
    by (rule consume_loop_ack)
next
  fix err assume "fst (handler m w) = Some err"
  then show "consume_loop (Suc n) handler (m # q) w =
        (case consume_loop n handler (m # q) (snd (handler m w)) of
           (served, q', w') \<Rightarrow> ((m, Some err, Nack False True) # served, q', w'))"
    by (rule consume_loop_nack)
next
  assume "\<forall>w0. fst (handler m w0) \<noteq> None"
  then have "map fst (fst (consume_loop n handler (m # q) w)) = replicate n m \<and>
             fst (snd (consume_loop n handler (m # q) w)) = m # q"
    using consume_loop_poison [of handler m n q w] by simp
  then show "map fst (fst (consume_loop n handler (m # q) w)) = replicate n m"
    and "fst (snd (consume_loop n handler (m # q) w)) = m # q"
    by simp_all
qed


theorem subscription_acknowledgement_policy_witness:
  "(\<forall>w. fst (ProcessOrder calm None w) \<noteq> None) \<and>
   map fst (fst (consume_loop 3 (ProcessOrder calm) [None, Some (placed [line 1 2])] start))
     = replicate 3 None \<and>
   fst (snd (consume_loop 3 (ProcessOrder calm) [None, Some (placed [line 1 2])] start))
     = [None, Some (placed [line 1 2])] \<and>
   fst (ProcessOrder calm (Some (placed [line 1 2])) start) = None \<and>
   fst (consume_loop (Suc 0) (ProcessOrder calm) [Some (placed [line 1 2])] start)
     = [(Some (placed [line 1 2]), None, Ack False)] \<and>
   fst (snd (consume_loop (Suc 0) (ProcessOrder calm) [Some (placed [line 1 2])] start)) = []"
proof -
  let ?h = "ProcessOrder calm"
  let ?m = "Some (placed [line 1 2])"
  have poison: "\<forall>w. fst (?h None w) \<noteq> None" by (simp add: ProcessOrder_def)
  have good: "fst (?h ?m start) = None" by code_simp
  from subscription_acknowledgement_policy [of calm 3 ?h "[?m]" start None] poison
  have a: "map fst (fst (consume_loop 3 ?h [None, ?m] start)) = replicate 3 None"
    and b: "fst (snd (consume_loop 3 ?h [None, ?m] start)) = [None, ?m]"
    by blast+
  from subscription_acknowledgement_policy [of calm 0 ?h "[]" start ?m] good
  have "consume_loop (Suc 0) ?h [?m] start =
        (case consume_loop 0 ?h [] (snd (?h ?m start)) of
           (served, q', w') \<Rightarrow> ((?m, None, Ack False) # served, q', w'))"
    by blast
  then have c: "fst (consume_loop (Suc 0) ?h [?m] start) = [(?m, None, Ack False)]"
    and d: "fst (snd (consume_loop (Suc 0) ?h [?m] start)) = []"
    by simp_all
  from poison a b good c d show ?thesis by blast
qed

section \<open>Properties of the order placement producer\<close>

lemma validate_items_ok:
  "\<forall>i. \<not> fails e (OpSelectProduct i) \<Longrightarrow>
   \<forall>item \<in> set items. products (view t) (ProductID item) \<noteq> None \<Longrightarrow>
   validate_items F e i t items acc = Inr (order_total F (products (view t)) items acc)"
  by (induction items arbitrary: i acc) (auto simp: select_price_stock_def)

lemma insert_items_ok:
  "\<forall>i. \<not> fails e (OpInsertItem i) \<Longrightarrow>
   insert_items e i oid items t =
     Inr (t\<lparr>view := (view t)\<lparr>order_items :=
            order_items (view t) @ order_lines e (products (view t)) i oid items\<rparr>\<rparr>)"
  by (induction items arbitrary: i t) (simp_all add: insert_item_def select_price_def)

lemma insert_items_closed:
  "insert_items e i oid items t = Inr t' \<Longrightarrow> closed t' = closed t"
  by (induction items arbitrary: i t) (auto simp: insert_item_def split: if_splits)

lemma order_lines_intact:
  "map (\<lambda>r. (order_id r, product_id r, quantity r)) (order_lines e ps i oid items)
     = map (\<lambda>item. (oid, ProductID item, Quantity item)) items"
  by (induction items arbitrary: i) simp_all

lemma insert_items_view:
  "insert_items e i oid items t = Inr t' \<Longrightarrow>
   view t' = (view t)\<lparr>order_items :=
               order_items (view t) @ order_lines e (products (view t)) i oid items\<rparr>"
proof (induction items arbitrary: i t)
  case Nil
  then show ?case by simp
next
  case (Cons item rest)
  from Cons.prems obtain t1 where
    one: "insert_item e i t
            \<lparr>order_id = oid, product_id = ProductID item, quantity = Quantity item,
             item_price = select_price e i t (ProductID item)\<rparr> = Inr t1"
    and more: "insert_items e (Suc i) oid rest t1 = Inr t'"
    by (auto split: sum.splits)
  from one have t1: "view t1 = (view t)\<lparr>order_items := order_items (view t) @
            [\<lparr>order_id = oid, product_id = ProductID item, quantity = Quantity item,
              item_price = select_price e i t (ProductID item)\<rparr>]\<rparr>"
    by (auto simp: insert_item_def split: if_splits)
  show ?case
    using Cons.IH [OF more] by (simp add: t1 select_price_def)
qed

lemma CreateOrder_effects:
  "\<exists>added. events (snd (CreateOrder F e userID bound w)) = events w @ added \<and>
     ((added = [] \<or> added = [TxRollback]) \<and> db (snd (CreateOrder F e userID bound w)) = db w
      \<or>
      (\<exists>req total.
         bound = Inr req \<and>
         db (snd (CreateOrder F e userID bound w)) =
           (db w)\<lparr>orders := (orders (db w))(order_seq w \<mapsto>
                        \<lparr>user_id = userID, status = PENDING, total_amount = total\<rparr>),
                   order_items := order_items (db w)
                        @ order_lines e (products (db w)) 0 (order_seq w) req\<rparr> \<and>
         (added = [TxCommit] \<or>
          added = [TxCommit,
                   Published QueueOrderPlaced
                     (MsgPlaced \<lparr>OrderID = order_seq w, UserID = userID, Items = req,
                        TotalAmount = total, Timestamp = now e\<rparr>)])))"
proof (cases bound)
  case (Inl bindError)
  then show ?thesis by (simp add: CreateOrder_def)
next
  case (Inr req)
  show ?thesis
  proof (cases "fails e OpBegin")
    case True
    then show ?thesis using Inr by (simp add: CreateOrder_def Begin_def)
  next
    case False
    let ?t = "\<lparr>view = db w, closed = False\<rparr>"
    have b: "Begin e w = Inr ?t" using False by (simp add: Begin_def)
    show ?thesis
    proof (cases "validate_items F e 0 ?t req 0")
      case (Inl r)
      then show ?thesis using Inr b by (simp add: CreateOrder_def deferred_open)
    next
      case v: (Inr total)
      show ?thesis
      proof (cases "fails e OpInsertOrder")
        case True
        then show ?thesis
          using Inr b v by (simp add: CreateOrder_def insert_order_def deferred_open)
      next
        case io: False
        let ?t1 = "?t\<lparr>view := (view ?t)\<lparr>orders := (orders (view ?t))(order_seq w \<mapsto>
                      \<lparr>user_id = userID, status = PENDING, total_amount = total\<rparr>)\<rparr>\<rparr>"
        let ?w1 = "w\<lparr>order_seq := order_seq w + 1\<rparr>"
        have ins: "insert_order e ?t w userID PENDING total = (Inr (order_seq w, ?t1), ?w1)"
          using io by (simp add: insert_order_def)
        show ?thesis
        proof (cases "insert_items e 0 (order_seq w) req ?t1")
          case (Inl r)
          then show ?thesis
            using Inr b v ins by (simp add: CreateOrder_def deferred_open)
        next
          case items: (Inr t2)
          have open2: "\<not> closed t2" using insert_items_closed [OF items] by simp
          have view2: "view t2 =
            (db w)\<lparr>orders := (orders (db w))(order_seq w \<mapsto>
                        \<lparr>user_id = userID, status = PENDING, total_amount = total\<rparr>),
                   order_items := order_items (db w)
                        @ order_lines e (products (db w)) 0 (order_seq w) req\<rparr>"
            using insert_items_view [OF items] by simp
          show ?thesis
          proof (cases "fails e OpCommit")
            case True
            then show ?thesis
              using Inr b v ins items open2
              by (simp add: CreateOrder_def Commit_def deferred_closed)
          next
            case c: False
            show ?thesis
              using Inr b v ins items open2 c view2
              by (auto simp: CreateOrder_def Commit_def Publish_def deferred_closed
                  intro: exI [of _ total])
          qed
        qed
      qed
    qed
  qed
qed

lemma CreateOrder_committed:
  assumes "\<not> fails e OpBegin" and "\<forall>i. \<not> fails e (OpSelectProduct i)"
    and "\<forall>item \<in> set req. products (db w) (ProductID item) \<noteq> None"
    and "\<not> fails e OpInsertOrder" and "\<forall>i. \<not> fails e (OpInsertItem i)"
    and "\<not> fails e OpCommit"
  shows "CreateOrder F e userID (Inr req) w =
     (if fails e OpPublish then
        (failure 500 ''Order created but failed to queue for processing'',
         w\<lparr>db := (db w)\<lparr>orders := (orders (db w))(order_seq w \<mapsto>
                        \<lparr>user_id = userID, status = PENDING,
                          total_amount = order_total F (products (db w)) req 0\<rparr>),
                      order_items := order_items (db w)
                        @ order_lines e (products (db w)) 0 (order_seq w) req\<rparr>,
           order_seq := order_seq w + 1,
           events := events w @ [TxCommit]\<rparr>)
      else
        (\<lparr>code = 202, success = True, text_of = ''Order received and is being processed'',
          data = Some (order_seq w, ''PENDING'')\<rparr>,
         w\<lparr>db := (db w)\<lparr>orders := (orders (db w))(order_seq w \<mapsto>
                        \<lparr>user_id = userID, status = PENDING,
                          total_amount = order_total F (products (db w)) req 0\<rparr>),
                      order_items := order_items (db w)
                        @ order_lines e (products (db w)) 0 (order_seq w) req\<rparr>,
           order_seq := order_seq w + 1,
           events := events w @
             [TxCommit,
              Published QueueOrderPlaced
                (MsgPlaced \<lparr>OrderID = order_seq w, UserID = userID, Items = req,
                   TotalAmount = order_total F (products (db w)) req 0,
                   Timestamp = now e\<rparr>)]\<rparr>))"
proof -
  let ?t = "\<lparr>view = db w, closed = False\<rparr>"
  have v: "validate_items F e 0 ?t req 0 = Inr (order_total F (products (db w)) req 0)"
    using validate_items_ok [of e req ?t F 0 0] assms(2,3) by simp
  show ?thesis
    using assms(1,4,5,6)
    by (simp add: CreateOrder_def Begin_ok v insert_order_def insert_items_ok Commit_ok
        Publish_def deferred_closed)
qed

text \<open>
  C9. Publish after commit, and the orphaned pending order. For every request and whatever
  fails, \<open>CreateOrder\<close> either commits nothing, or commits once the PENDING order together
  with one line per requested item; the placement event, if there is one, comes after
  that commit and carries the new order's id, the user and the items. When every requested
  product exists and the calls up to the commit succeed, the order and its lines are
  committed, and then: if the publish succeeds, the placement event is published and the
  caller gets 202 with the order's id; if the publish fails, the committed order stays
  PENDING with its lines, no placement event exists, and the caller gets the error
  response 500.
\<close>

theorem publish_only_after_commit:
  "(\<exists>added. events (snd (CreateOrder F e userID bound w)) = events w @ added \<and>
     ((added = [] \<or> added = [TxRollback]) \<and> db (snd (CreateOrder F e userID bound w)) = db w
      \<or>
      (\<exists>req total.
         bound = Inr req \<and>
         db (snd (CreateOrder F e userID bound w)) =
           (db w)\<lparr>orders := (orders (db w))(order_seq w \<mapsto>
                        \<lparr>user_id = userID, status = PENDING, total_amount = total\<rparr>),
                   order_items := order_items (db w)
                        @ order_lines e (products (db w)) 0 (order_seq w) req\<rparr> \<and>
         (added = [TxCommit] \<or>
          added = [TxCommit,
                   Published QueueOrderPlaced
                     (MsgPlaced \<lparr>OrderID = order_seq w, UserID = userID, Items = req,
                        TotalAmount = total, Timestamp = now e\<rparr>)])))) \<and>
   map (\<lambda>r. (order_id r, product_id r, quantity r))
       (order_lines e (products (db w)) 0 (order_seq w) items)
     = map (\<lambda>item. (order_seq w, ProductID item, Quantity item)) items \<and>
   (\<not> fails e OpBegin \<and> (\<forall>i. \<not> fails e (OpSelectProduct i)) \<and>
    (\<forall>item \<in> set items. products (db w) (ProductID item) \<noteq> None) \<and>
    \<not> fails e OpInsertOrder \<and> (\<forall>i. \<not> fails e (OpInsertItem i)) \<and>
    \<not> fails e OpCommit \<longrightarrow>
      CreateOrder F e userID (Inr items) w =
        (if fails e OpPublish then
           (failure 500 ''Order created but failed to queue for processing'',
            w\<lparr>db := (db w)\<lparr>orders := (orders (db w))(order_seq w \<mapsto>
                           \<lparr>user_id = userID, status = PENDING,
                             total_amount = order_total F (products (db w)) items 0\<rparr>),
                         order_items := order_items (db w)
                           @ order_lines e (products (db w)) 0 (order_seq w) items\<rparr>,
              order_seq := order_seq w + 1,
              events := events w @ [TxCommit]\<rparr>)
         else
           (\<lparr>code = 202, success = True,
             text_of = ''Order received and is being processed'',
             data = Some (order_seq w, ''PENDING'')\<rparr>,
            w\<lparr>db := (db w)\<lparr>orders := (orders (db w))(order_seq w \<mapsto>
                           \<lparr>user_id = userID, status = PENDING,
                             total_amount = order_total F (products (db w)) items 0\<rparr>),
                         order_items := order_items (db w)
                           @ order_lines e (products (db w)) 0 (order_seq w) items\<rparr>,
              order_seq := order_seq w + 1,
              events := events w @
                [TxCommit,
                 Published QueueOrderPlaced
                   (MsgPlaced \<lparr>OrderID = order_seq w, UserID = userID, Items = items,
                      TotalAmount = order_total F (products (db w)) items 0,
                      Timestamp = now e\<rparr>)]\<rparr>)))"
proof (intro conjI impI)
  show "\<exists>added. events (snd (CreateOrder F e userID bound w)) = events w @ added \<and>
     ((added = [] \<or> added = [TxRollback]) \<and> db (snd (CreateOrder F e userID bound w)) = db w
      \<or>
      (\<exists>req total.
         bound = Inr req \<and>
         db (snd (CreateOrder F e userID bound w)) =
           (db w)\<lparr>orders := (orders (db w))(order_seq w \<mapsto>
                        \<lparr>user_id = userID, status = PENDING, total_amount = total\<rparr>),
                   order_items := order_items (db w)
                        @ order_lines e (products (db w)) 0 (order_seq w) req\<rparr> \<and>
         (added = [TxCommit] \<or>
          added = [TxCommit,
                   Published QueueOrderPlaced
                     (MsgPlaced \<lparr>OrderID = order_seq w, UserID = userID, Items = req,
                        TotalAmount = total, Timestamp = now e\<rparr>)])))"
    by (rule CreateOrder_effects)
next
  show "map (\<lambda>r. (order_id r, product_id r, quantity r))
       (order_lines e (products (db w)) 0 (order_seq w) items)
     = map (\<lambda>item. (order_seq w, ProductID item, Quantity item)) items"
    by (rule order_lines_intact)
next
  assume a: "\<not> fails e OpBegin \<and> (\<forall>i. \<not> fails e (OpSelectProduct i)) \<and>
    (\<forall>item \<in> set items. products (db w) (ProductID item) \<noteq> None) \<and>
    \<not> fails e OpInsertOrder \<and> (\<forall>i. \<not> fails e (OpInsertItem i)) \<and>
    \<not> fails e OpCommit"
  then show "CreateOrder F e userID (Inr items) w =
        (if fails e OpPublish then
           (failure 500 ''Order created but failed to queue for processing'',
            w\<lparr>db := (db w)\<lparr>orders := (orders (db w))(order_seq w \<mapsto>
                           \<lparr>user_id = userID, status = PENDING,
                             total_amount = order_total F (products (db w)) items 0\<rparr>),
                         order_items := order_items (db w)
                           @ order_lines e (products (db w)) 0 (order_seq w) items\<rparr>,
              order_seq := order_seq w + 1,
              events := events w @ [TxCommit]\<rparr>)
         else
           (\<lparr>code = 202, success = True,
             text_of = ''Order received and is being processed'',
             data = Some (order_seq w, ''PENDING'')\<rparr>,
            w\<lparr>db := (db w)\<lparr>orders := (orders (db w))(order_seq w \<mapsto>
                           \<lparr>user_id = userID, status = PENDING,
                             total_amount = order_total F (products (db w)) items 0\<rparr>),
                         order_items := order_items (db w)
                           @ order_lines e (products (db w)) 0 (order_seq w) items\<rparr>,
              order_seq := order_seq w + 1,
              events := events w @
                [TxCommit,
                 Published QueueOrderPlaced
                   (MsgPlaced \<lparr>OrderID = order_seq w, UserID = userID, Items = items,
                      TotalAmount = order_total F (products (db w)) items 0,
                      Timestamp = now e\<rparr>)]\<rparr>))"
    using CreateOrder_committed [of e items w F userID] by blast
qed

theorem publish_only_after_commit_witness:
  "code (fst (CreateOrder whole calm 3 (Inr [line 1 2, line 2 1]) start)) = 202 \<and>
   data (fst (CreateOrder whole calm 3 (Inr [line 1 2, line 2 1]) start))
     = Some (8, ''PENDING'') \<and>
   status_of 8 (snd (CreateOrder whole calm 3 (Inr [line 1 2, line 2 1]) start))
     = Some PENDING \<and>
   order_items (db (snd (CreateOrder whole calm 3 (Inr [line 1 2, line 2 1]) start)))
     = [\<lparr>order_id = 8, product_id = 1, quantity = 2, item_price = 20\<rparr>,
        \<lparr>order_id = 8, product_id = 2, quantity = 1, item_price = 10\<rparr>] \<and>
   events (snd (CreateOrder whole calm 3 (Inr [line 1 2, line 2 1]) start))
     = [TxCommit,
        Published ''order_placed''
          (MsgPlaced \<lparr>OrderID = 8, UserID = 3, Items = [line 1 2, line 2 1],
             TotalAmount = 50, Timestamp = 0\<rparr>)] \<and>
   fails (only_fails OpPublish) OpPublish \<and>
   code (fst (CreateOrder whole (only_fails OpPublish) 3 (Inr [line 1 2, line 2 1]) start))
     = 500 \<and>
   \<not> success (fst (CreateOrder whole (only_fails OpPublish) 3
                      (Inr [line 1 2, line 2 1]) start)) \<and>
   status_of 8 (snd (CreateOrder whole (only_fails OpPublish) 3
                       (Inr [line 1 2, line 2 1]) start)) = Some PENDING \<and>
   order_items (db (snd (CreateOrder whole (only_fails OpPublish) 3
                           (Inr [line 1 2, line 2 1]) start)))
     = [\<lparr>order_id = 8, product_id = 1, quantity = 2, item_price = 20\<rparr>,
        \<lparr>order_id = 8, product_id = 2, quantity = 1, item_price = 10\<rparr>] \<and>
   events (snd (CreateOrder whole (only_fails OpPublish) 3 (Inr [line 1 2, line 2 1]) start))
     = [TxCommit]"
proof -
  let ?bad = "only_fails OpPublish"
  let ?req = "[line 1 2, line 2 1]"
  have total: "order_total whole (products (db start)) ?req 0 = 50"
    by (simp add: whole_def start_def shop_def line_def)
  have h1: "\<not> fails calm OpBegin \<and> (\<forall>i. \<not> fails calm (OpSelectProduct i)) \<and>
    (\<forall>item \<in> set ?req. products (db start) (ProductID item) \<noteq> None) \<and>
    \<not> fails calm OpInsertOrder \<and> (\<forall>i. \<not> fails calm (OpInsertItem i)) \<and>
    \<not> fails calm OpCommit"
    by (simp add: calm_def start_def shop_def line_def)
  have h2: "\<not> fails ?bad OpBegin \<and> (\<forall>i. \<not> fails ?bad (OpSelectProduct i)) \<and>
    (\<forall>item \<in> set ?req. products (db start) (ProductID item) \<noteq> None) \<and>
    \<not> fails ?bad OpInsertOrder \<and> (\<forall>i. \<not> fails ?bad (OpInsertItem i)) \<and>
    \<not> fails ?bad OpCommit"
    by (simp add: only_fails_def start_def shop_def line_def)
  have p1: "\<not> fails calm OpPublish" by (simp add: calm_def)
  have p2: "fails ?bad OpPublish" by (simp add: only_fails_def)
  from publish_only_after_commit [of whole calm 3 "Inr ?req" start ?req] h1 p1
  have eq1: "CreateOrder whole calm 3 (Inr ?req) start =
           (\<lparr>code = 202, success = True,
             text_of = ''Order received and is being processed'',
             data = Some (order_seq start, ''PENDING'')\<rparr>,
            start\<lparr>db := (db start)\<lparr>orders := (orders (db start))(order_seq start \<mapsto>
                           \<lparr>user_id = 3, status = PENDING,
                             total_amount = order_total whole (products (db start)) ?req 0\<rparr>),
                         order_items := order_items (db start)
                           @ order_lines calm (products (db start)) 0 (order_seq start) ?req\<rparr>,
              order_seq := order_seq start + 1,
              events := events start @
                [TxCommit,
                 Published QueueOrderPlaced
                   (MsgPlaced \<lparr>OrderID = order_seq start, UserID = 3, Items = ?req,
                      TotalAmount = order_total whole (products (db start)) ?req 0,
                      Timestamp = now calm\<rparr>)]\<rparr>)"
    by simp
  from publish_only_after_commit [of whole ?bad 3 "Inr ?req" start ?req] h2 p2
  have eq2: "CreateOrder whole ?bad 3 (Inr ?req) start =
        (failure 500 ''Order created but failed to queue for processing'',
         start\<lparr>db := (db start)\<lparr>orders := (orders (db start))(order_seq start \<mapsto>
                        \<lparr>user_id = 3, status = PENDING,
                          total_amount = order_total whole (products (db start)) ?req 0\<rparr>),
                      order_items := order_items (db start)
                        @ order_lines ?bad (products (db start)) 0 (order_seq start) ?req\<rparr>,
           order_seq := order_seq start + 1,
           events := events start @ [TxCommit]\<rparr>)"
    by simp
  have a: "code (fst (CreateOrder whole calm 3 (Inr ?req) start)) = 202"
    and b: "data (fst (CreateOrder whole calm 3 (Inr ?req) start)) = Some (8, ''PENDING'')"
    and c: "status_of 8 (snd (CreateOrder whole calm 3 (Inr ?req) start)) = Some PENDING"
    and d: "order_items (db (snd (CreateOrder whole calm 3 (Inr ?req) start)))
     = [\<lparr>order_id = 8, product_id = 1, quantity = 2, item_price = 20\<rparr>,
        \<lparr>order_id = 8, product_id = 2, quantity = 1, item_price = 10\<rparr>]"
    and ev: "events (snd (CreateOrder whole calm 3 (Inr ?req) start))
     = [TxCommit,
        Published ''order_placed''
          (MsgPlaced \<lparr>OrderID = 8, UserID = 3, Items = ?req,
             TotalAmount = 50, Timestamp = 0\<rparr>)]"
    unfolding eq1 total
    by (simp_all add: status_of_def start_def shop_def line_def calm_def QueueOrderPlaced_def)
  have a': "code (fst (CreateOrder whole ?bad 3 (Inr ?req) start)) = 500"
    and b': "\<not> success (fst (CreateOrder whole ?bad 3 (Inr ?req) start))"
    and c': "status_of 8 (snd (CreateOrder whole ?bad 3 (Inr ?req) start)) = Some PENDING"
    and d': "order_items (db (snd (CreateOrder whole ?bad 3 (Inr ?req) start)))
     = [\<lparr>order_id = 8, product_id = 1, quantity = 2, item_price = 20\<rparr>,
        \<lparr>order_id = 8, product_id = 2, quantity = 1, item_price = 10\<rparr>]"
    and ev': "events (snd (CreateOrder whole ?bad 3 (Inr ?req) start)) = [TxCommit]"
    unfolding eq2
    by (simp_all add: failure_def status_of_def start_def shop_def line_def only_fails_def)
  from a b c d ev p2 a' b' c' d' ev' show ?thesis by blast
qed

end
